theory Spec2Isabelle
  imports
    Complex_Main
    "HOL-Library.Word"
    "HOL-Library.FSet"
    "HOL-Library.Finite_Map"
    "HOL-Library.Monad_Syntax"
begin

unbundle bit_operations_syntax

section \<open>A shallow embedding of go-hll\<close>

text \<open>
  The development follows the Go sources file by file: \<^verbatim>\<open>util.go\<close>, \<^verbatim>\<open>settings.go\<close>,
  the three storage types (explicit, sparse, dense) and \<^verbatim>\<open>hll.go\<close>.

  Conventions.
  \<^item> \<^verbatim>\<open>uint64\<close>, \<^verbatim>\<open>uint32\<close> and \<^verbatim>\<open>byte\<close> are words of that width; shifts by 64 or more
    give 0 in Go, and so do \<open>push_bit\<close> and \<open>drop_bit\<close> on words.
  \<^item> Go's \<^verbatim>\<open>int\<close> has 64 bits.  The exported \<^verbatim>\<open>Settings\<close> keep \<open>int\<close> fields (a threshold
    may be \<open>-1\<close>); sizes, indices and shift amounts, which are never negative in the code,
    are \<open>nat\<close>.  No computation on them in the modelled code reaches \<open>2 ^ 63\<close>.
  \<^item> A run-time panic (slice index out of range) is the value \<open>None\<close>.
  \<^item> The floating point fields of \<^verbatim>\<open>settings\<close> (\<^verbatim>\<open>alphaMSquared\<close>, the estimator cutoffs,
    \<^verbatim>\<open>twoToL\<close>) and the functions reading them (\<^verbatim>\<open>Cardinality\<close>, \<^verbatim>\<open>indicator\<close>) are
    left out: they are functions of the settings and of the storage modelled here.
\<close>

type_synonym u64 = "64 word"
type_synonym u32 = "32 word"
type_synonym byte = "8 word"

subsection \<open>util.go\<close>

text \<open>\<^verbatim>\<open>result := i >> 3; if remainder := i & 0x7; remainder > 0 { result++ }\<close>\<close>

definition divideBy8RoundUp :: "nat \<Rightarrow> nat" where
  "divideBy8RoundUp i =
     (let result = drop_bit 3 i;
          remainder = take_bit 3 i
      in if remainder > 0 then result + 1 else result)"

subsection \<open>math/bits\<close>

text \<open>
  The two standard library functions the code calls, by their documented meaning:
  \<^verbatim>\<open>bits.TrailingZeros64(x)\<close> is the number of trailing zero bits of \<open>x\<close> (64 for 0) and
  \<^verbatim>\<open>bits.Len32(x)\<close> the minimum number of bits required to represent \<open>x\<close> (0 for 0).
\<close>

definition TrailingZeros64 :: "u64 \<Rightarrow> nat" where
  "TrailingZeros64 x = length (takeWhile (\<lambda>n. \<not> bit x n) [0..<64])"

fun bit_length :: "nat \<Rightarrow> nat" where
  "bit_length n = (if n = 0 then 0 else Suc (bit_length (n div 2)))"

declare bit_length.simps [simp del]

definition Len32 :: "u32 \<Rightarrow> nat" where
  "Len32 x = bit_length (unat x)"

subsection \<open>settings.go\<close>

definition minimumLog2mParam :: int where "minimumLog2mParam = 4"
definition maximumLog2mParam :: int where "maximumLog2mParam = 31"
definition minimumRegwidthParam :: int where "minimumRegwidthParam = 1"
definition maximumRegwidthParam :: int where "maximumRegwidthParam = 8"
definition minimumExpthreshParam :: int where "minimumExpthreshParam = - 1"
definition maximumExpthreshParam :: int where "maximumExpthreshParam = 18"
definition maximumExplicitThreshold :: int where
  "maximumExplicitThreshold = 2 ^ nat (maximumExpthreshParam - 1)"
definition AutoExplicitThreshold :: int where "AutoExplicitThreshold = - 1"

record Settings =
  Log2m :: int
  Regwidth :: int
  ExplicitThreshold :: int
  SparseEnabled :: bool

record settings =
  log2m :: nat
  regwidth :: nat
  explicitAuto :: bool
  sparseEnabled :: bool
  explicitThreshold :: int
  sparseThreshold :: int
  pwMaxMask :: u64
  mBitsMask :: u64

datatype error =
    ErrInsufficientBytes
  | ErrIncompatible
  | UnsupportedVersion nat
  | InvalidType nat
  | Log2mTooSmall int
  | Log2mTooLarge int
  | RegwidthTooSmall int
  | RegwidthTooLarge int
  | ExplicitThresholdTooSmall int
  | ExplicitThresholdTooLarge int

text \<open>\<^verbatim>\<open>validate\<close>: \<open>None\<close> is Go's \<^verbatim>\<open>nil\<close> error.\<close>

definition validate :: "Settings \<Rightarrow> error option" where
  "validate s =
     (if Log2m s < minimumLog2mParam then Some (Log2mTooSmall (Log2m s))
      else if Log2m s > maximumLog2mParam then Some (Log2mTooLarge (Log2m s))
      else if Regwidth s < minimumRegwidthParam then Some (RegwidthTooSmall (Regwidth s))
      else if Regwidth s > maximumRegwidthParam then Some (RegwidthTooLarge (Regwidth s))
      else if ExplicitThreshold s < minimumExpthreshParam
        then Some (ExplicitThresholdTooSmall (ExplicitThreshold s))
      else if ExplicitThreshold s > maximumExplicitThreshold
        then Some (ExplicitThresholdTooLarge (ExplicitThreshold s))
      else None)"

text \<open>
  \<^verbatim>\<open>m := 1 << uint(log2m); fullRepresentationSize := divideBy8RoundUp(regwidth * m);
  numLongs := fullRepresentationSize / 8\<close>
\<close>

definition calculateExplicitThreshold :: "nat \<Rightarrow> nat \<Rightarrow> int" where
  "calculateExplicitThreshold l r =
     (let m = push_bit l (1::nat);
          fullRepresentationSize = divideBy8RoundUp (r * m);
          numLongs = int (fullRepresentationSize div 8)
      in if numLongs > maximumExplicitThreshold then maximumExplicitThreshold else numLongs)"

text \<open>
  \<^verbatim>\<open>calculateSparseThreshold\<close> computes \<^verbatim>\<open>1 << uint(math.Log2(float64(m*regwidth) /
  float64(shortWordLength)))\<close>.  The quotient is at least 3 for valid settings and the
  conversion to \<^verbatim>\<open>uint\<close> truncates, so the exponent is the integer part of the binary
  logarithm of the quotient; it is computed here on the integer part of the quotient.
  No statement below depends on the value of this threshold.
\<close>

definition calculateSparseThreshold :: "nat \<Rightarrow> nat \<Rightarrow> int" where
  "calculateSparseThreshold l r =
     (let m = push_bit l (1::nat);
          shortWordLength = l + r;
          largestPow2LessThanCutoff = bit_length ((m * r) div shortWordLength) - 1
      in int (push_bit largestPow2LessThanCutoff (1::nat)))"

text \<open>
  \<^verbatim>\<open>maxRegisterValue := (1 << uint(regwidth)) - 1;
  return ^((1 << uint(maxRegisterValue-1)) - 1)\<close>, the shift being on \<^verbatim>\<open>uint64\<close>.
\<close>

definition pwMaxMask_of :: "nat \<Rightarrow> u64" where
  "pwMaxMask_of r =
     (let maxRegisterValue = push_bit r (1::nat) - 1
      in NOT (push_bit (maxRegisterValue - 1) (1::u64) - 1))"

text \<open>
  \<^verbatim>\<open>toInternal\<close>.  The settings cache only memoises the result, which is a function of
  the argument.
\<close>

definition toInternal :: "Settings \<Rightarrow> error + settings" where
  "toInternal s =
     (case validate s of
        Some err \<Rightarrow> Inl err
      | None \<Rightarrow>
          (let l = nat (Log2m s);
               r = nat (Regwidth s);
               auto = (ExplicitThreshold s = AutoExplicitThreshold)
           in Inr \<lparr> log2m = l,
                    regwidth = r,
                    explicitAuto = auto,
                    sparseEnabled = SparseEnabled s,
                    explicitThreshold =
                      (if auto then calculateExplicitThreshold l r else ExplicitThreshold s),
                    sparseThreshold =
                      (if SparseEnabled s then calculateSparseThreshold l r else 0),
                    pwMaxMask = pwMaxMask_of r,
                    mBitsMask = push_bit l (1::u64) - 1 \<rparr>))"

subsection \<open>hll.go: the cutoff byte\<close>

text \<open>
  \<^verbatim>\<open>packCutoffByte\<close>: 63 for an automatic threshold, 0 for a disabled one, otherwise
  \<^verbatim>\<open>byte(bits.Len32(uint32(settings.explicitThreshold))) - 1\<close>; bit 6 is the sparse flag.
\<close>

definition packCutoffByte :: "settings \<Rightarrow> byte" where
  "packCutoffByte st =
     (let threshold =
            (if explicitAuto st then 63
             else if explicitThreshold st = 0 then 0
             else (word_of_nat (Len32 (word_of_int (explicitThreshold st))) :: byte) - 1);
          cutoff = threshold
      in if sparseEnabled st then cutoff OR push_bit 6 1 else cutoff)"

text \<open>
  \<^verbatim>\<open>unpackCutoffByte\<close>: \<^verbatim>\<open>sparseEnabled := b>>6 == 1; expThreshold := b & 0x3f\<close>, then 0,
  \<open>-1\<close> or \<^verbatim>\<open>1 << (expThreshold - 1)\<close> as an \<^verbatim>\<open>int\<close>.
\<close>

definition unpackCutoffByte :: "byte \<Rightarrow> bool \<times> int" where
  "unpackCutoffByte b =
     (let sparseEnabled = (drop_bit 6 b = 1);
          expThreshold = b AND 0x3f
      in if expThreshold = 0 then (sparseEnabled, 0)
         else if expThreshold = 63 then (sparseEnabled, - 1)
         else (sparseEnabled, push_bit (unat (expThreshold - 1)) (1::int)))"

subsection \<open>util.go: bit addressed reads and writes\<close>

text \<open>A \<^verbatim>\<open>for\<close> loop over a range whose body may panic.\<close>

fun fold_option :: "('a \<Rightarrow> 's \<Rightarrow> 's option) \<Rightarrow> 'a list \<Rightarrow> 's \<Rightarrow> 's option" where
  "fold_option f [] s = Some s"
| "fold_option f (x # xs) s = (case f x s of None \<Rightarrow> None | Some s' \<Rightarrow> fold_option f xs s')"

text \<open>
  \<^verbatim>\<open>readBits\<close>.  The loop state is \<open>(idx, pos, value, bitsRequired)\<close>; \<open>pos\<close> starts as
  \<^verbatim>\<open>addr & 0x7\<close> and is reset to 0 when it reaches 8, so it is below 8 at every
  iteration; the first guard only makes the recursion total.  Reading \<^verbatim>\<open>bytes[idx]\<close>
  past the end panics.
\<close>

function readBits_loop :: "byte list \<Rightarrow> nat \<Rightarrow> nat \<Rightarrow> u64 \<Rightarrow> nat \<Rightarrow> u64 option" where
  "readBits_loop bytes idx pos val bitsRequired =
     (if bitsRequired > 0 then
        (if 8 \<le> pos \<or> length bytes \<le> idx then None
         else
           (let bitsAvailable = (if 8 - pos > bitsRequired then bitsRequired else 8 - pos);
                val1 = push_bit bitsAvailable val;
                mask = push_bit (8 - pos - bitsAvailable) (push_bit bitsAvailable (1::byte) - 1);
                bits0 = bytes ! idx AND mask;
                bits = (if pos + bitsAvailable \<noteq> 8
                        then drop_bit (8 - (pos + bitsAvailable)) bits0 else bits0);
                val2 = val1 OR ucast bits;
                pos1 = pos + bitsAvailable
            in readBits_loop bytes (if pos1 = 8 then idx + 1 else idx)
                 (if pos1 = 8 then 0 else pos1) val2 (bitsRequired - bitsAvailable)))
      else Some val)"
  by pat_completeness auto
termination
  by (relation "measure (\<lambda>(bytes, idx, pos, val, bitsRequired). bitsRequired)") auto

declare readBits_loop.simps [simp del]

definition readBits :: "byte list \<Rightarrow> nat \<Rightarrow> nat \<Rightarrow> u64 option" where
  "readBits bytes addr nBits = readBits_loop bytes (drop_bit 3 addr) (take_bit 3 addr) 0 nBits"

function writeBits_loop :: "byte list \<Rightarrow> nat \<Rightarrow> nat \<Rightarrow> u64 \<Rightarrow> nat \<Rightarrow> byte list option" where
  "writeBits_loop bytes idx pos val nBits =
     (if nBits > 0 then
        (if 8 \<le> pos \<or> length bytes \<le> idx then None
         else
           (let bitsToWrite = (if 8 - pos > nBits then nBits else 8 - pos);
                mask = push_bit bitsToWrite (1::byte) - 1;
                partToWrite0 = mask AND ucast (drop_bit (nBits - bitsToWrite) val);
                partToWrite = (if pos + bitsToWrite \<noteq> 8
                               then push_bit (8 - (pos + bitsToWrite)) partToWrite0
                               else partToWrite0);
                bytes1 = bytes[idx := bytes ! idx OR partToWrite];
                pos1 = pos + bitsToWrite
            in writeBits_loop bytes1 (if pos1 = 8 then idx + 1 else idx)
                 (if pos1 = 8 then 0 else pos1) val (nBits - bitsToWrite)))
      else Some bytes)"
  by pat_completeness auto
termination
  by (relation "measure (\<lambda>(bytes, idx, pos, val, nBits). nBits)") auto

declare writeBits_loop.simps [simp del]

definition writeBits :: "byte list \<Rightarrow> nat \<Rightarrow> u64 \<Rightarrow> nat \<Rightarrow> byte list option" where
  "writeBits bytes addr val nBits =
     writeBits_loop bytes (drop_bit 3 addr) (take_bit 3 addr) val nBits"

subsection \<open>encoding/binary\<close>

text \<open>
  \<^verbatim>\<open>binary.BigEndian.PutUint64(bytes[pos:], v)\<close> and
  \<^verbatim>\<open>binary.BigEndian.Uint64(bytes[pos:pos+8])\<close>; both panic when fewer than 8 bytes are
  left at \<open>pos\<close>.
\<close>

definition putUint64 :: "byte list \<Rightarrow> nat \<Rightarrow> u64 \<Rightarrow> byte list option" where
  "putUint64 bytes pos v =
     (if pos + 8 \<le> length bytes
      then Some (bytes[pos := ucast (drop_bit 56 v), pos + 1 := ucast (drop_bit 48 v),
                       pos + 2 := ucast (drop_bit 40 v), pos + 3 := ucast (drop_bit 32 v),
                       pos + 4 := ucast (drop_bit 24 v), pos + 5 := ucast (drop_bit 16 v),
                       pos + 6 := ucast (drop_bit 8 v), pos + 7 := ucast v])
      else None)"

definition getUint64 :: "byte list \<Rightarrow> nat \<Rightarrow> u64 option" where
  "getUint64 bytes pos =
     (if pos + 8 \<le> length bytes
      then Some (ucast (bytes ! (pos + 7)) OR push_bit 8 (ucast (bytes ! (pos + 6)))
                 OR push_bit 16 (ucast (bytes ! (pos + 5)))
                 OR push_bit 24 (ucast (bytes ! (pos + 4)))
                 OR push_bit 32 (ucast (bytes ! (pos + 3)))
                 OR push_bit 40 (ucast (bytes ! (pos + 2)))
                 OR push_bit 48 (ucast (bytes ! (pos + 1)))
                 OR push_bit 56 (ucast (bytes ! pos)))
      else None)"

subsection \<open>storage.go: the storage types\<close>

text \<open>
  The \<^verbatim>\<open>storage\<close> interface has three implementations; a \<^verbatim>\<open>nil\<close> interface value is the
  empty counter.  \<^verbatim>\<open>explicitStorage\<close> is a \<^verbatim>\<open>map[uint64]struct{}\<close>, a finite set;
  \<^verbatim>\<open>sparseStorage\<close> is a \<^verbatim>\<open>map[int32]byte\<close>, a finite map (its keys are never negative in
  the code modelled here and are kept as \<open>nat\<close>); \<^verbatim>\<open>denseStorage\<close> is a \<^verbatim>\<open>[]uint64\<close>.
  Two Go maps with the same entries are the same state.
\<close>

datatype storage =
    NilStorage
  | ExplicitStorage "u64 fset"
  | SparseStorage "(nat, byte) fmap"
  | DenseStorage "u64 list"

record Hll =
  settings :: settings
  storage :: storage

subsection \<open>dense.go\<close>

definition newDenseStorage :: "settings \<Rightarrow> u64 list" where
  "newDenseStorage st =
     (let bytes = divideBy8RoundUp (push_bit (log2m st) (1::nat) * regwidth st)
      in replicate (divideBy8RoundUp bytes) 0)"

definition dense_overCapacity :: "u64 list \<Rightarrow> settings \<Rightarrow> bool" where
  "dense_overCapacity s st = False"

definition dense_sizeInBytes :: "u64 list \<Rightarrow> settings \<Rightarrow> nat" where
  "dense_sizeInBytes s st = divideBy8RoundUp (push_bit (log2m st) (1::nat) * regwidth st)"

text \<open>\<^verbatim>\<open>addr := regnum * regwidth; idx := addr >> 6; pos := addr & 0x3f\<close>\<close>

definition calcPosition :: "nat \<Rightarrow> nat \<Rightarrow> nat \<times> nat" where
  "calcPosition regnum rw =
     (let addr = regnum * rw
      in (drop_bit 6 addr, take_bit 6 addr))"

text \<open>\<^verbatim>\<open>get\<close>: a read inside one word, or a read across the boundary of two words.\<close>

definition dense_get :: "u64 list \<Rightarrow> nat \<Rightarrow> nat \<Rightarrow> byte option" where
  "dense_get s regnum rw =
     (case calcPosition regnum rw of (idx, pos) \<Rightarrow>
        if pos + rw \<le> 64 then
          (let shiftLeft = (if pos + rw < 64 then 64 - (pos + rw) else 0);
               mask = push_bit shiftLeft (push_bit rw (1::u64) - 1)
           in if idx < length s
              then Some (ucast (drop_bit shiftLeft (mask AND s ! idx)))
              else None)
        else
          (let nBitsUpper = 64 - pos;
               nBitsLower = rw - nBitsUpper;
               maskUpper = push_bit nBitsUpper (1::u64) - 1
           in if idx + 1 < length s
              then (let upper = push_bit nBitsLower (s ! idx AND maskUpper);
                        lower = drop_bit (64 - nBitsLower) (s ! (idx + 1))
                    in Some (ucast (upper OR lower)))
              else None))"

text \<open>
  \<^verbatim>\<open>setIfGreater\<close>.  The single word branch writes when \<^verbatim>\<open>value > currVal\<close>, the boundary
  branch when \<^verbatim>\<open>value >= byte(currVal)\<close>.
\<close>

definition dense_setIfGreater :: "u64 list \<Rightarrow> settings \<Rightarrow> nat \<Rightarrow> byte \<Rightarrow> u64 list option" where
  "dense_setIfGreater s st regnum v =
     (case calcPosition regnum (regwidth st) of (idx, pos) \<Rightarrow>
        let nBits = regwidth st in
        if pos + nBits \<le> 64 then
          (let mask0 = push_bit (regwidth st) (1::u64) - 1;
               partToWrite0 = ucast v AND mask0;
               shiftLeft = (if pos + nBits < 64 then 64 - (pos + nBits) else 0);
               partToWrite = (if pos + nBits < 64 then push_bit shiftLeft partToWrite0
                              else partToWrite0);
               mask = (if pos + nBits < 64 then push_bit shiftLeft mask0 else mask0)
           in if idx < length s
              then (let currVal = (ucast (drop_bit shiftLeft (mask AND s ! idx)) :: byte)
                    in if v > currVal
                       then Some (s[idx := (NOT mask AND s ! idx) OR partToWrite])
                       else Some s)
              else None)
        else
          (let nBitsUpper = 64 - pos;
               nBitsLower = nBits - nBitsUpper;
               maskUpper = push_bit nBitsUpper (1::u64) - 1;
               maskLower = push_bit nBitsLower (1::u64) - 1
           in if idx + 1 < length s
              then (let upper = push_bit nBitsLower (s ! idx AND maskUpper);
                        lower = drop_bit (64 - nBitsLower) (s ! (idx + 1));
                        currVal = upper OR lower
                    in if v \<ge> (ucast currVal :: byte)
                       then (let partToWriteUpper = drop_bit nBitsLower (ucast v) AND maskUpper;
                                 partToWriteLower =
                                   push_bit (64 - nBitsLower) (ucast v AND maskLower);
                                 maskLowerShifted = push_bit (64 - nBitsLower) maskLower;
                                 s1 = s[idx := (NOT maskUpper AND s ! idx) OR partToWriteUpper]
                             in Some (s1[idx + 1 :=
                                   (NOT maskLowerShifted AND s1 ! (idx + 1)) OR partToWriteLower]))
                       else Some s)
              else None))"

text \<open>
  The position of a bit in the register stream of a dense storage: bit 0 is the most
  significant bit of word 0.  Register \<open>k\<close> of width \<open>rw\<close> is meant to occupy the stream
  bits \<open>k * rw, \<dots>, k * rw + rw - 1\<close>, most significant bit first.
\<close>

definition stream_bit :: "u64 list \<Rightarrow> nat \<Rightarrow> bool" where
  "stream_bit s n = bit (s ! (n div 64)) (63 - n mod 64)"

definition valid_settings :: "settings \<Rightarrow> bool" where
  "valid_settings st =
     (4 \<le> log2m st \<and> log2m st \<le> 31 \<and> 1 \<le> regwidth st \<and> regwidth st \<le> 8
      \<and> pwMaxMask st = pwMaxMask_of (regwidth st)
      \<and> mBitsMask st = push_bit (log2m st) (1::u64) - 1)"

text \<open>
  \<^verbatim>\<open>writeBytes\<close>: whole words big endian, then the leading \<^verbatim>\<open>cap(bytes) % 8\<close> bytes of
  the next word.  The slice handed over by \<^verbatim>\<open>ToBytes\<close> has its capacity equal to its
  length.
\<close>

definition dense_writeBytes :: "u64 list \<Rightarrow> settings \<Rightarrow> byte list \<Rightarrow> byte list option" where
  "dense_writeBytes s st bytes =
     (let nWords = length bytes div 8;
          remainder = length bytes mod 8
      in case fold_option
                (\<lambda>i bs. if i < length s then putUint64 bs (i * 8) (s ! i) else None)
                [0..<nWords] bytes of
           None \<Rightarrow> None
         | Some bytes1 \<Rightarrow>
             if remainder > 0 then
               (if nWords < length s
                then (let lastWord = s ! nWords; byteOffset = nWords * 8
                      in fold_option
                           (\<lambda>i bs. if byteOffset + i < length bs
                                    then Some (bs[byteOffset + i :=
                                                   ucast (drop_bit (64 - 8 * (i + 1)) lastWord)])
                                    else None)
                           [0..<remainder] bytes1)
                else None)
             else Some bytes1)"

text \<open>\<^verbatim>\<open>fromBytes\<close>: the length check, whole words, then the remaining bytes.\<close>

definition dense_fromBytes :: "u64 list \<Rightarrow> settings \<Rightarrow> byte list \<Rightarrow> (error + u64 list) option" where
  "dense_fromBytes s st bytes =
     (if length bytes \<noteq> divideBy8RoundUp (push_bit (log2m st) (1::nat) * regwidth st)
      then Some (Inl ErrInsufficientBytes)
      else
        (let n = length bytes;
             nWords = n div 8;
             remainder = n mod 8
         in case fold_option
                   (\<lambda>i s'. case getUint64 bytes (i * 8) of
                               None \<Rightarrow> None
                             | Some w \<Rightarrow> if i < length s' then Some (s'[i := w]) else None)
                   [0..<nWords] s of
              None \<Rightarrow> None
            | Some s1 \<Rightarrow>
                if remainder > 0 then
                  (case fold_option
                          (\<lambda>i lastValue.
                             if n - (remainder - i) < length bytes
                             then Some (lastValue OR
                                    push_bit (64 - 8 * (i + 1)) (ucast (bytes ! (n - (remainder - i)))))
                             else None)
                          [0..<remainder] (0::u64) of
                     None \<Rightarrow> None
                   | Some lastValue \<Rightarrow>
                       if length s1 = 0 then None
                       else Some (Inr (s1[length s1 - 1 := lastValue])))
                else Some (Inr s1)))"

text \<open>
  \<^verbatim>\<open>union\<close>: one pass over the registers of both storages.  The state of the loop is
  \<open>(idx, pos, thisWord, otherWord, computed, msk, s)\<close>, \<open>msk\<close> being the variable \<^verbatim>\<open>mask\<close>.
\<close>

type_synonym union_state = "nat \<times> nat \<times> u64 \<times> u64 \<times> u64 \<times> u64 \<times> u64 list"

definition dense_union_step :: "settings \<Rightarrow> u64 list \<Rightarrow> union_state \<Rightarrow> union_state option" where
  "dense_union_step st other state =
     (case state of (idx, pos, thisWord, otherWord, computed, msk, s) \<Rightarrow>
        let bitsAvailable = 64 - pos in
        if bitsAvailable \<ge> regwidth st then
          (let thisValue = thisWord AND msk;
               otherValue = otherWord AND msk;
               computed1 = (if otherValue > thisValue
                            then (NOT msk AND computed) OR otherValue else computed)
           in Some (idx, pos + regwidth st, thisWord, otherWord, computed1,
                    drop_bit (regwidth st) msk, s))
        else
          (let thisValue = thisWord AND msk;
               otherValue = otherWord AND msk;
               otherIsGreater = (bitsAvailable > 0 \<and> otherValue > thisValue);
               thisIsGreater = (bitsAvailable > 0 \<and> \<not> otherValue > thisValue
                                 \<and> otherValue < thisValue);
               computed1 = (if otherIsGreater then (NOT msk AND computed) OR otherValue
                            else computed)
           in if idx < length s \<and> idx + 1 < length s \<and> idx + 1 < length other then
                (let s1 = (if computed1 \<noteq> thisWord then s[idx := computed1] else s);
                     thisWord1 = s1 ! (idx + 1);
                     otherWord1 = other ! (idx + 1);
                     nLowerBits = regwidth st - bitsAvailable;
                     lowerMask = push_bit (64 - nLowerBits) (push_bit nLowerBits (1::u64) - 1);
                     thisLowerBits = thisWord1 AND lowerMask;
                     otherLowerBits = otherWord1 AND lowerMask;
                     computed2 =
                       (if \<not> thisIsGreater \<and>
                           ((otherIsGreater \<and> thisLowerBits \<noteq> otherLowerBits)
                            \<or> otherLowerBits > thisLowerBits)
                        then (NOT lowerMask AND thisWord1) OR otherLowerBits
                        else thisWord1)
                 in Some (idx + 1, nLowerBits, thisWord1, otherWord1, computed2,
                          drop_bit nLowerBits (push_bit (64 - regwidth st) (mBitsMask st)), s1))
              else None))"

definition dense_union :: "u64 list \<Rightarrow> settings \<Rightarrow> u64 list \<Rightarrow> u64 list option" where
  "dense_union s st other =
     (let numReg = push_bit (log2m st) (1::nat) in
      if s = [] \<or> other = [] then None
      else
        (case fold_option (\<lambda>i state. dense_union_step st other state) [0..<numReg]
                (0, 0, s ! 0, other ! 0, s ! 0, push_bit (64 - regwidth st) (mBitsMask st), s) of
           None \<Rightarrow> None
         | Some (idx, pos, thisWord, otherWord, computed, msk, s') \<Rightarrow>
             if computed \<noteq> thisWord
             then (if idx < length s' then Some (s'[idx := computed]) else None)
             else Some s'))"

subsection \<open>explicit.go\<close>

definition explicit_overCapacity :: "u64 fset \<Rightarrow> settings \<Rightarrow> bool" where
  "explicit_overCapacity s st = (int (fcard s) > explicitThreshold st)"

definition explicit_sizeInBytes :: "u64 fset \<Rightarrow> settings \<Rightarrow> nat" where
  "explicit_sizeInBytes s st = 8 * fcard s"

text \<open>
  \<^verbatim>\<open>writeBytes\<close> sorts the values as signed 64-bit integers and writes each big endian.
  The values are distinct, so the sorted slice does not depend on the order in which the
  map was traversed.
\<close>

definition explicit_writeBytes :: "u64 fset \<Rightarrow> settings \<Rightarrow> byte list \<Rightarrow> byte list option" where
  "explicit_writeBytes s st bytes =
     (let sortedValues = sort_key sint (sorted_list_of_fset s)
      in fold_option (\<lambda>i bs. putUint64 bs (i * 8) (sortedValues ! i))
           [0..<length sortedValues] bytes)"

text \<open>\<^verbatim>\<open>for i := 0; i < len(bytes); i += 8\<close>\<close>

function explicit_fromBytes_loop :: "u64 fset \<Rightarrow> byte list \<Rightarrow> nat \<Rightarrow> u64 fset option" where
  "explicit_fromBytes_loop s bytes i =
     (if i < length bytes
      then (case getUint64 bytes i of
              None \<Rightarrow> None
            | Some v \<Rightarrow> explicit_fromBytes_loop (finsert v s) bytes (i + 8))
      else Some s)"
  by pat_completeness auto
termination
  by (relation "measure (\<lambda>(s, bytes, i). length bytes - i)") auto

declare explicit_fromBytes_loop.simps [simp del]

definition explicit_fromBytes :: "u64 fset \<Rightarrow> settings \<Rightarrow> byte list \<Rightarrow> (error + u64 fset) option" where
  "explicit_fromBytes s st bytes =
     (if length bytes mod 8 \<noteq> 0 then Some (Inl ErrInsufficientBytes)
      else map_option Inr (explicit_fromBytes_loop s bytes 0))"

subsection \<open>sparse.go\<close>

text \<open>Reading a key that is not in a Go map gives the zero value.\<close>

definition sparse_lookup :: "(nat, byte) fmap \<Rightarrow> nat \<Rightarrow> byte" where
  "sparse_lookup s k = (case fmlookup s k of None \<Rightarrow> 0 | Some v \<Rightarrow> v)"

definition sparse_overCapacity :: "(nat, byte) fmap \<Rightarrow> settings \<Rightarrow> bool" where
  "sparse_overCapacity s st = (int (fcard (fmdom s)) > sparseThreshold st)"

definition sparse_sizeInBytes :: "(nat, byte) fmap \<Rightarrow> settings \<Rightarrow> nat" where
  "sparse_sizeInBytes s st = divideBy8RoundUp ((log2m st + regwidth st) * fcard (fmdom s))"

text \<open>
  \<^verbatim>\<open>writeBytes\<close>: the registers in ascending order, each written as
  \<^verbatim>\<open>(uint64(reg) << regwidth) | uint64(s[reg])\<close> on \<^verbatim>\<open>log2m + regwidth\<close> bits.
\<close>

definition sparse_writeBytes :: "(nat, byte) fmap \<Rightarrow> settings \<Rightarrow> byte list \<Rightarrow> byte list option" where
  "sparse_writeBytes s st bytes =
     (let sortedRegisters = sorted_list_of_fset (fmdom s);
          bitsPerRegister = log2m st + regwidth st
      in fold_option
           (\<lambda>i bs. let reg = sortedRegisters ! i
                    in writeBits bs (i * bitsPerRegister)
                         (push_bit (regwidth st) (word_of_nat reg) OR ucast (sparse_lookup s reg))
                         bitsPerRegister)
           [0..<length sortedRegisters] bytes)"

text \<open>
  \<^verbatim>\<open>fromBytes\<close> reads \<^verbatim>\<open>(8 * len(bytes)) / bitsPerRegister\<close> registers and stores each,
  whatever its value; it returns no error.
\<close>

definition sparse_fromBytes :: "(nat, byte) fmap \<Rightarrow> settings \<Rightarrow> byte list \<Rightarrow> (error + (nat, byte) fmap) option" where
  "sparse_fromBytes s st bytes =
     (let bitsPerRegister = regwidth st + log2m st;
          regMask = (word_of_nat (push_bit (regwidth st) (1::nat) - 1) :: byte);
          numRegisters = (8 * length bytes) div bitsPerRegister
      in map_option Inr
           (fold_option
              (\<lambda>i s'. case readBits bytes (i * bitsPerRegister) bitsPerRegister of
                          None \<Rightarrow> None
                        | Some regAndVal \<Rightarrow>
                            Some (fmupd (unat (drop_bit (regwidth st) regAndVal))
                                    (ucast regAndVal AND regMask) s'))
              [0..<numRegisters] s))"

definition sparse_setIfGreater :: "(nat, byte) fmap \<Rightarrow> settings \<Rightarrow> nat \<Rightarrow> byte \<Rightarrow> (nat, byte) fmap" where
  "sparse_setIfGreater s st regnum v =
     (let existing = sparse_lookup s regnum
      in if v > existing then fmupd regnum v s else s)"

subsection \<open>hll.go\<close>

text \<open>
  Calls through the \<^verbatim>\<open>storage\<close> and \<^verbatim>\<open>registers\<close> interfaces.  A method call on a
  \<^verbatim>\<open>nil\<close> interface value panics, and so does a failed type assertion.
\<close>

definition storage_overCapacity :: "storage \<Rightarrow> settings \<Rightarrow> bool option" where
  "storage_overCapacity s st =
     (case s of
        NilStorage \<Rightarrow> None
      | ExplicitStorage e \<Rightarrow> Some (explicit_overCapacity e st)
      | SparseStorage sp \<Rightarrow> Some (sparse_overCapacity sp st)
      | DenseStorage d \<Rightarrow> Some (dense_overCapacity d st))"

definition storage_sizeInBytes :: "storage \<Rightarrow> settings \<Rightarrow> nat option" where
  "storage_sizeInBytes s st =
     (case s of
        NilStorage \<Rightarrow> None
      | ExplicitStorage e \<Rightarrow> Some (explicit_sizeInBytes e st)
      | SparseStorage sp \<Rightarrow> Some (sparse_sizeInBytes sp st)
      | DenseStorage d \<Rightarrow> Some (dense_sizeInBytes d st))"

definition storage_writeBytes :: "storage \<Rightarrow> settings \<Rightarrow> byte list \<Rightarrow> byte list option" where
  "storage_writeBytes s st bytes =
     (case s of
        NilStorage \<Rightarrow> None
      | ExplicitStorage e \<Rightarrow> explicit_writeBytes e st bytes
      | SparseStorage sp \<Rightarrow> sparse_writeBytes sp st bytes
      | DenseStorage d \<Rightarrow> dense_writeBytes d st bytes)"

definition storage_fromBytes :: "storage \<Rightarrow> settings \<Rightarrow> byte list \<Rightarrow> (error + storage) option" where
  "storage_fromBytes s st bytes =
     (case s of
        NilStorage \<Rightarrow> None
      | ExplicitStorage e \<Rightarrow> map_option (map_sum id ExplicitStorage) (explicit_fromBytes e st bytes)
      | SparseStorage sp \<Rightarrow> map_option (map_sum id SparseStorage) (sparse_fromBytes sp st bytes)
      | DenseStorage d \<Rightarrow> map_option (map_sum id DenseStorage) (dense_fromBytes d st bytes))"

definition registers_setIfGreater :: "storage \<Rightarrow> settings \<Rightarrow> nat \<Rightarrow> byte \<Rightarrow> storage option" where
  "registers_setIfGreater s st regnum v =
     (case s of
        SparseStorage sp \<Rightarrow> Some (SparseStorage (sparse_setIfGreater sp st regnum v))
      | DenseStorage d \<Rightarrow> map_option DenseStorage (dense_setIfGreater d st regnum v)
      | _ \<Rightarrow> None)"

definition NewHll :: "Settings \<Rightarrow> error + Hll" where
  "NewHll s =
     (case toInternal s of
        Inl err \<Rightarrow> Inl err
      | Inr st \<Rightarrow> Inr \<lparr> settings = st, storage = NilStorage \<rparr>)"

text \<open>
  \<^verbatim>\<open>FromBytes\<close>.  \<open>None\<close> is a panic, \<open>Some (Inl err)\<close> a returned error and
  \<open>Some (Inr h)\<close> the counter returned with a \<^verbatim>\<open>nil\<close> error.  Storage type 0 is
  \<^verbatim>\<open>undefined\<close>, 1 \<^verbatim>\<open>empty\<close>, 2 \<^verbatim>\<open>explicit\<close>, 3 \<^verbatim>\<open>sparse\<close> and 4 \<^verbatim>\<open>dense\<close>.
\<close>

definition FromBytes :: "byte list \<Rightarrow> (error + Hll) option" where
  "FromBytes bytes =
     (if length bytes < 3 then Some (Inl ErrInsufficientBytes)
      else
        (let version = unat (drop_bit 4 (bytes ! 0));
             storageType = unat (bytes ! 0 AND 0xf)
         in if version \<noteq> 1 then Some (Inl (UnsupportedVersion version))
            else if storageType < 1 \<or> storageType > 4 then Some (Inl (InvalidType storageType))
            else
              (let rw = drop_bit 5 (bytes ! 1) + 1;
                   l = bytes ! 1 AND 0x1f;
                   (sparseEnabled, explicitThreshold) = unpackCutoffByte (bytes ! 2);
                   settings = \<lparr> Log2m = uint l, Regwidth = uint rw,
                                ExplicitThreshold = explicitThreshold,
                                SparseEnabled = sparseEnabled \<rparr>
               in case toInternal settings of
                    Inl err \<Rightarrow> Some (Inl err)
                  | Inr internalSettings \<Rightarrow>
                      (let h = \<lparr> settings = internalSettings, storage = NilStorage \<rparr>;
                           h1 = (if storageType = 2 then h\<lparr>storage := ExplicitStorage {||}\<rparr>
                                 else if storageType = 3 then h\<lparr>storage := SparseStorage fmempty\<rparr>
                                 else if storageType = 4
                                   then h\<lparr>storage := DenseStorage (newDenseStorage internalSettings)\<rparr>
                                 else h);
                           storageBytes = drop 3 bytes
                       in if storage h1 \<noteq> NilStorage
                          then (case storage_fromBytes (storage h1) internalSettings storageBytes of
                                  None \<Rightarrow> None
                                | Some (Inl err) \<Rightarrow> Some (Inl err)
                                | Some (Inr s') \<Rightarrow> Some (Inr (h1\<lparr>storage := s'\<rparr>)))
                          else Some (Inr h1)))))"

text \<open>
  \<^verbatim>\<open>upgrade\<close> and \<^verbatim>\<open>AddRaw\<close> call each other: \<^verbatim>\<open>AddRaw\<close> upgrades a storage that is
  over capacity, and the explicit case of \<^verbatim>\<open>upgrade\<close> installs a sparse or dense storage
  and then adds every value with \<^verbatim>\<open>AddRaw\<close>.  These inner calls find a storage that
  implements \<^verbatim>\<open>registers\<close>, and an upgrade they trigger is the sparse case.  The model
  follows this order: the sparse case of \<^verbatim>\<open>upgrade\<close>, \<^verbatim>\<open>AddRaw\<close> on a \<^verbatim>\<open>registers\<close>
  storage, \<^verbatim>\<open>upgrade\<close>, \<^verbatim>\<open>AddRaw\<close>.  Lemmas \<open>AddRaw_on_registers\<close> and
  \<open>upgrade_explicit\<close> below give back the equations of the source.

  Go traverses a map in an unspecified order; the loops over a map are modelled in
  ascending order of the keys.
\<close>

definition sparseToDense :: "settings \<Rightarrow> (nat, byte) fmap \<Rightarrow> u64 list option" where
  "sparseToDense st sparse =
     fold_option (\<lambda>k dense. dense_setIfGreater dense st k (sparse_lookup sparse k))
       (sorted_list_of_fset (fmdom sparse)) (newDenseStorage st)"

definition upgrade_registers :: "Hll \<Rightarrow> Hll option" where
  "upgrade_registers h =
     (case storage h of
        SparseStorage s \<Rightarrow>
          map_option (\<lambda>ds. h\<lparr>storage := DenseStorage ds\<rparr>)
            (fold_option (\<lambda>regnum ds. dense_setIfGreater ds (settings h) regnum (sparse_lookup s regnum))
               (sorted_list_of_fset (fmdom s)) (newDenseStorage (settings h)))
      | _ \<Rightarrow> Some h)"

definition AddRaw_registers :: "Hll \<Rightarrow> u64 \<Rightarrow> Hll option" where
  "AddRaw_registers h v =
     (if v = 0 then Some h
      else
        (let substreamValue = drop_bit (log2m (settings h)) v
         in if substreamValue = 0 then Some h
            else
              (let pW = (word_of_nat
                           (1 + TrailingZeros64 (substreamValue OR pwMaxMask (settings h))) :: byte);
                   i = unat (v AND mBitsMask (settings h))
               in case registers_setIfGreater (storage h) (settings h) i pW of
                    None \<Rightarrow> None
                  | Some s' \<Rightarrow>
                      (let h' = h\<lparr>storage := s'\<rparr>
                       in case storage_overCapacity (storage h') (settings h') of
                            None \<Rightarrow> None
                          | Some True \<Rightarrow> upgrade_registers h'
                          | Some False \<Rightarrow> Some h'))))"

definition upgrade :: "Hll \<Rightarrow> Hll option" where
  "upgrade h =
     (case storage h of
        ExplicitStorage s \<Rightarrow>
          fold_option (\<lambda>v h'. AddRaw_registers h' v) (sorted_list_of_fset s)
            (h\<lparr>storage := (if sparseEnabled (settings h) then SparseStorage fmempty
                            else DenseStorage (newDenseStorage (settings h)))\<rparr>)
      | _ \<Rightarrow> upgrade_registers h)"

definition AddRaw :: "Hll \<Rightarrow> u64 \<Rightarrow> Hll option" where
  "AddRaw h v =
     (if v = 0 then Some h
      else
        (let h1 = (if storage h = NilStorage
                   then (if explicitThreshold (settings h) > 0
                         then h\<lparr>storage := ExplicitStorage {||}\<rparr>
                         else if sparseEnabled (settings h)
                         then h\<lparr>storage := SparseStorage fmempty\<rparr>
                         else h\<lparr>storage := DenseStorage (newDenseStorage (settings h))\<rparr>)
                   else h)
         in case storage h1 of
              ExplicitStorage s \<Rightarrow>
                (let h2 = h1\<lparr>storage := ExplicitStorage (finsert v s)\<rparr>
                 in case storage_overCapacity (storage h2) (settings h2) of
                      None \<Rightarrow> None
                    | Some True \<Rightarrow> upgrade h2
                    | Some False \<Rightarrow> Some h2)
            | _ \<Rightarrow> AddRaw_registers h1 v))"

definition addFromExplicit :: "Hll \<Rightarrow> u64 fset \<Rightarrow> Hll option" where
  "addFromExplicit h explicit =
     fold_option (\<lambda>k h'. AddRaw h' k) (sorted_list_of_fset explicit) h"

text \<open>
  \<^verbatim>\<open>denseUnion\<close>.  With different settings it reads the other storage with
  \<^verbatim>\<open>otherStorage.get(i, otherSettings.log2m)\<close>.
\<close>

definition denseUnion :: "u64 list \<Rightarrow> u64 list \<Rightarrow> settings \<Rightarrow> settings \<Rightarrow> u64 list option" where
  "denseUnion thisStorage otherStorage thisSettings otherSettings =
     (if log2m thisSettings = log2m otherSettings \<and> regwidth thisSettings = regwidth otherSettings
      then dense_union thisStorage thisSettings otherStorage
      else fold_option
             (\<lambda>i this. case dense_get otherStorage i (log2m otherSettings) of
                          None \<Rightarrow> None
                        | Some g \<Rightarrow>
                            dense_setIfGreater this thisSettings i
                              (g AND ucast (mBitsMask thisSettings)))
             [0..<push_bit (log2m thisSettings) (1::nat)] thisStorage)"

text \<open>
  \<^verbatim>\<open>union\<close>: \<open>Some (Inl ErrIncompatible)\<close> is the returned error, \<open>Some (Inr h')\<close> the
  receiver after the call.  Storage is copied with \<^verbatim>\<open>copy()\<close>; a copy is the same value.
\<close>

definition union :: "Hll \<Rightarrow> Hll \<Rightarrow> bool \<Rightarrow> (error + Hll) option" where
  "union h other strict =
     (let sameSettings = (regwidth (settings h) = regwidth (settings other)
                          \<and> log2m (settings h) = log2m (settings other))
      in if strict \<and> \<not> sameSettings then Some (Inl ErrIncompatible)
         else if storage other = NilStorage then Some (Inr h)
         else if storage h = NilStorage then
           (case storage other of
              SparseStorage sparse \<Rightarrow>
                if sparseEnabled (settings h) then Some (Inr (h\<lparr>storage := SparseStorage sparse\<rparr>))
                else map_option (\<lambda>d. Inr (h\<lparr>storage := DenseStorage d\<rparr>))
                       (sparseToDense (settings h) sparse)
            | otherStorage \<Rightarrow> Some (Inr (h\<lparr>storage := otherStorage\<rparr>)))
         else
           (case
              (case storage other of
                 NilStorage \<Rightarrow> Some h
               | ExplicitStorage otherStorage \<Rightarrow> addFromExplicit h otherStorage
               | SparseStorage otherStorage \<Rightarrow>
                   (case storage h of
                      ExplicitStorage thisStorage \<Rightarrow>
                        (case (if sparseEnabled (settings h) then Some (SparseStorage otherStorage)
                               else map_option DenseStorage (sparseToDense (settings h) otherStorage)) of
                           None \<Rightarrow> None
                         | Some s' \<Rightarrow> addFromExplicit (h\<lparr>storage := s'\<rparr>) thisStorage)
                    | NilStorage \<Rightarrow> Some h
                    | _ \<Rightarrow>
                        fold_option
                          (\<lambda>k h'. map_option (\<lambda>s'. h'\<lparr>storage := s'\<rparr>)
                                     (registers_setIfGreater (storage h') (settings h) k
                                        (sparse_lookup otherStorage k AND ucast (mBitsMask (settings h)))))
                          (sorted_list_of_fset (fmdom otherStorage)) h)
               | DenseStorage otherStorage \<Rightarrow>
                   (case storage h of
                      ExplicitStorage thisStorage \<Rightarrow>
                        addFromExplicit (h\<lparr>storage := DenseStorage otherStorage\<rparr>) thisStorage
                    | SparseStorage thisStorage \<Rightarrow>
                        (case upgrade h of
                           None \<Rightarrow> None
                         | Some h' \<Rightarrow>
                             (case storage h' of
                                DenseStorage d \<Rightarrow>
                                  map_option (\<lambda>d'. h'\<lparr>storage := DenseStorage d'\<rparr>)
                                    (denseUnion d otherStorage (settings h') (settings other))
                              | _ \<Rightarrow> None))
                    | DenseStorage thisStorage \<Rightarrow>
                        map_option (\<lambda>d'. h\<lparr>storage := DenseStorage d'\<rparr>)
                          (denseUnion thisStorage otherStorage (settings h) (settings other))
                    | NilStorage \<Rightarrow> Some h)) of
              None \<Rightarrow> None
            | Some h1 \<Rightarrow>
                (case storage_overCapacity (storage h1) (settings h1) of
                   None \<Rightarrow> None
                 | Some True \<Rightarrow> map_option Inr (upgrade h1)
                 | Some False \<Rightarrow> Some (Inr h1))))"

text \<open>\<^verbatim>\<open>Union\<close> panics on an error of \<^verbatim>\<open>union\<close>; \<^verbatim>\<open>StrictUnion\<close> returns it.\<close>

definition Union :: "Hll \<Rightarrow> Hll \<Rightarrow> Hll option" where
  "Union h other = (case union h other False of Some (Inr h') \<Rightarrow> Some h' | _ \<Rightarrow> None)"

definition StrictUnion :: "Hll \<Rightarrow> Hll \<Rightarrow> (error + Hll) option" where
  "StrictUnion h other = union h other True"

definition Clear :: "Hll \<Rightarrow> Hll" where
  "Clear h = h\<lparr>storage := NilStorage\<rparr>"

text \<open>
  \<^verbatim>\<open>ToBytes\<close>: three header bytes, then the storage written into \<^verbatim>\<open>bytes[3:]\<close>.
\<close>

definition ToBytes :: "Hll \<Rightarrow> byte list option" where
  "ToBytes h =
     (let storageType = (case storage h of
                           ExplicitStorage _ \<Rightarrow> 2 | SparseStorage _ \<Rightarrow> 3
                         | DenseStorage _ \<Rightarrow> 4 | NilStorage \<Rightarrow> (1::byte));
          bytesNeeded = (case storage_sizeInBytes (storage h) (settings h) of
                           None \<Rightarrow> 0 | Some n \<Rightarrow> n);
          bytes = replicate (3 + bytesNeeded) (0::byte);
          bytes1 = bytes[0 := push_bit 4 1 OR storageType,
                         1 := word_of_nat (push_bit 5 (regwidth (settings h) - 1) OR log2m (settings h)),
                         2 := packCutoffByte (settings h)]
      in if storage h \<noteq> NilStorage
         then map_option (\<lambda>payload. take 3 bytes1 @ payload)
                (storage_writeBytes (storage h) (settings h) (drop 3 bytes1))
         else Some bytes1)"

subsection \<open>Example settings\<close>

text \<open>
  The internal settings of \<^verbatim>\<open>Settings{Log2m: 4, Regwidth: 5, ExplicitThreshold: 0,
  SparseEnabled: true}\<close>: 16 registers of 5 bits in two words, register 12 lying across
  the two.
\<close>

definition settings_4_5 :: settings where
  "settings_4_5 =
     \<lparr> log2m = 4, regwidth = 5, explicitAuto = False, sparseEnabled = True,
       explicitThreshold = 0, sparseThreshold = 8,
       pwMaxMask = 0xFFFFFFFFC0000000, mBitsMask = 15 \<rparr>"

text \<open>
  The internal settings of \<^verbatim>\<open>Settings{Log2m: 4, Regwidth: 1, ExplicitThreshold: 0,
  SparseEnabled: true}\<close>, of \<^verbatim>\<open>{11, 5, 128, true}\<close>, of \<^verbatim>\<open>{11, 1, 0, true}\<close>, of
  \<^verbatim>\<open>{11, 2, 0, true}\<close> and of \<^verbatim>\<open>{11, 5, AutoExplicitThreshold, false}\<close>.
\<close>

definition settings_4_1 :: settings where
  "settings_4_1 =
     \<lparr> log2m = 4, regwidth = 1, explicitAuto = False, sparseEnabled = True,
       explicitThreshold = 0, sparseThreshold = 2,
       pwMaxMask = 0xFFFFFFFFFFFFFFFF, mBitsMask = 15 \<rparr>"

definition settings_11_5 :: settings where
  "settings_11_5 =
     \<lparr> log2m = 11, regwidth = 5, explicitAuto = False, sparseEnabled = True,
       explicitThreshold = 128, sparseThreshold = 512,
       pwMaxMask = 0xFFFFFFFFC0000000, mBitsMask = 2047 \<rparr>"

definition settings_11_1 :: settings where
  "settings_11_1 =
     \<lparr> log2m = 11, regwidth = 1, explicitAuto = False, sparseEnabled = True,
       explicitThreshold = 0, sparseThreshold = 128,
       pwMaxMask = 0xFFFFFFFFFFFFFFFF, mBitsMask = 2047 \<rparr>"

definition settings_11_2 :: settings where
  "settings_11_2 =
     \<lparr> log2m = 11, regwidth = 2, explicitAuto = False, sparseEnabled = True,
       explicitThreshold = 0, sparseThreshold = 256,
       pwMaxMask = 0xFFFFFFFFFFFFFFFC, mBitsMask = 2047 \<rparr>"

definition settings_11_5_auto :: settings where
  "settings_11_5_auto =
     \<lparr> log2m = 11, regwidth = 5, explicitAuto = True, sparseEnabled = False,
       explicitThreshold = 160, sparseThreshold = 0,
       pwMaxMask = 0xFFFFFFFFC0000000, mBitsMask = 2047 \<rparr>"

subsection \<open>The error cases of FromBytes, as tables\<close>

text \<open>
  The cases in which \<^verbatim>\<open>FromBytes\<close> returns an error, in the order in which the code
  tests them, with the error returned: a buffer shorter than the header, the version,
  the storage type, the validation of the decoded settings (\<open>log2m\<close> below 4, or a
  threshold field from 19 to 62, which decodes to more than 131072), then the length of
  an explicit or of a dense payload.  \<open>None\<close> means that no error is returned.
\<close>

definition FromBytes_error_table :: "byte list \<Rightarrow> error option" where
  "FromBytes_error_table buf =
     (if length buf < 3 then Some ErrInsufficientBytes
      else
        (let version = unat (drop_bit 4 (buf ! 0));
             ty = unat (buf ! 0 AND 0xf);
             l = unat (buf ! 1 AND 0x1f);
             rw = unat (drop_bit 5 (buf ! 1)) + 1;
             code = unat (buf ! 2 AND 0x3f);
             n = length buf - 3
         in if version \<noteq> 1 then Some (UnsupportedVersion version)
            else if ty < 1 \<or> 4 < ty then Some (InvalidType ty)
            else if l < 4 then Some (Log2mTooSmall (int l))
            else if 19 \<le> code \<and> code \<le> 62
              then Some (ExplicitThresholdTooLarge (2 ^ (code - 1)))
            else if ty = 2 \<and> n mod 8 \<noteq> 0 then Some ErrInsufficientBytes
            else if ty = 4 \<and> int n \<noteq> \<lceil>real (2 ^ l * rw) / 8\<rceil> then Some ErrInsufficientBytes
            else None))"


text \<open>
  The cases listed by the specification (section 7 and claim C8), without the
  validation of the settings: this definition follows the words of the specification,
  not the code.
\<close>

definition claimed_error_case :: "byte list \<Rightarrow> bool" where
  "claimed_error_case buf =
     (length buf < 3
      \<or> (let version = unat (drop_bit 4 (buf ! 0));
              ty = unat (buf ! 0 AND 0xf);
              l = unat (buf ! 1 AND 0x1f);
              rw = unat (drop_bit 5 (buf ! 1)) + 1;
              n = length buf - 3
          in version \<noteq> 1
             \<or> ty \<notin> {1, 2, 3, 4}
             \<or> (ty = 2 \<and> n mod 8 \<noteq> 0)
             \<or> (ty = 4 \<and> int n \<noteq> \<lceil>real (2 ^ l * rw) / 8\<rceil>)))"

(*THEOREMS*)

section \<open>Properties\<close>

subsection \<open>Arithmetic helpers\<close>

lemmas param_defs =
  minimumLog2mParam_def maximumLog2mParam_def minimumRegwidthParam_def
  maximumRegwidthParam_def minimumExpthreshParam_def maximumExpthreshParam_def
  maximumExplicitThreshold_def AutoExplicitThreshold_def

lemma divideBy8RoundUp_eq: "divideBy8RoundUp i = (i + 7) div 8"
proof -
  define q r where "q = i div 8" and "r = i mod 8"
  have i: "i = 8 * q + r" and r: "r < 8" by (simp_all add: q_def r_def)
  have "(i + 7) div 8 = (if r > 0 then q + 1 else q)"
    by (rule div_nat_eqI) (use i r in \<open>auto split: if_splits\<close>)
  then show ?thesis
    by (simp add: divideBy8RoundUp_def Let_def drop_bit_eq_div take_bit_eq_mod q_def r_def)
qed

lemma divideBy8RoundUp_ceiling: "int (divideBy8RoundUp i) = \<lceil>real i / 8\<rceil>"
proof -
  have "\<lceil>real i / 8\<rceil> = \<lceil>real_of_int (int i) / real_of_int 8\<rceil>" by simp
  also have "\<dots> = - ((- int i) div 8)" by (subst ceiling_divide_eq_div) simp
  also have "\<dots> = int ((i + 7) div 8)" by (simp add: zdiv_int)
  finally show ?thesis by (simp add: divideBy8RoundUp_eq)
qed

lemma calculateExplicitThreshold_closed_form:
  "calculateExplicitThreshold l r = min 131072 (\<lceil>real (2 ^ l * r) / 8\<rceil> div 8)"
proof -
  have "int (divideBy8RoundUp (r * 2 ^ l)) = \<lceil>real (2 ^ l * r) / 8\<rceil>"
    by (simp only: divideBy8RoundUp_ceiling mult.commute)
  then show ?thesis
    unfolding calculateExplicitThreshold_def Let_def maximumExplicitThreshold_def
      maximumExpthreshParam_def
    by (simp add: push_bit_eq_mult zdiv_int min_def)
qed

lemma calculateExplicitThreshold_examples:
  "calculateExplicitThreshold 11 5 = 160" "calculateExplicitThreshold 12 6 = 384"
  unfolding calculateExplicitThreshold_def Let_def maximumExplicitThreshold_def
    maximumExpthreshParam_def divideBy8RoundUp_eq
  by (simp_all add: push_bit_eq_mult)

subsection \<open>The automatic explicit threshold\<close>

text \<open>
  C9.  For every \<open>log2m\<close> in \<open>[4, 31]\<close> and \<open>regwidth\<close> in \<open>[1, 8]\<close> the automatically
  calculated explicit threshold is \<open>min(131072, ceil(m * regwidth / 8) / 8)\<close> with
  \<open>m = 2 ^ log2m\<close> and an integer division for the second divide; it is 160 for
  \<open>Log2m = 11, Regwidth = 5\<close> and 384 for \<open>Log2m = 12, Regwidth = 6\<close>.
\<close>

theorem calculateExplicitThreshold_spec:
  assumes "4 \<le> l" and "l \<le> 31" and "1 \<le> r" and "r \<le> 8"
  shows "calculateExplicitThreshold l r = min 131072 (\<lceil>real (2 ^ l * r) / 8\<rceil> div 8)
         \<and> calculateExplicitThreshold 11 5 = 160
         \<and> calculateExplicitThreshold 12 6 = 384"
  by (simp only: calculateExplicitThreshold_closed_form [of l r]
        calculateExplicitThreshold_examples simp_thms)

theorem calculateExplicitThreshold_spec_witness:
  "(4::nat) \<le> 31 \<and> (31::nat) \<le> 31 \<and> (1::nat) \<le> 8 \<and> (8::nat) \<le> 8
   \<and> calculateExplicitThreshold 31 8 = 131072"
proof -
  have "calculateExplicitThreshold 31 8
          = min 131072 (\<lceil>real (2 ^ 31 * 8) / 8\<rceil> div 8)"
    using calculateExplicitThreshold_spec [of 31 8] by simp
  then show ?thesis by simp
qed



subsection \<open>Dense registers\<close>

lemma calcPosition_eq: "calcPosition i rw = ((i * rw) div 64, (i * rw) mod 64)"
  by (simp add: calcPosition_def Let_def drop_bit_eq_div take_bit_eq_mod)

lemma mask_alt: "push_bit n (1::u64) - 1 = mask n"
  by (simp add: mask_eq_exp_minus_1 push_bit_eq_mult)

text \<open>get, in terms of masks\<close>
lemma dense_get_single:
  assumes "(i * rw) mod 64 + rw \<le> 64" "(i * rw) div 64 < length s"
  shows "dense_get s i rw = Some (ucast (drop_bit (64 - ((i * rw) mod 64 + rw)) 
            (push_bit (64 - ((i * rw) mod 64 + rw)) (mask rw) AND s ! ((i * rw) div 64))))"
proof -
  have "(if (i * rw) mod 64 + rw < 64 then 64 - ((i * rw) mod 64 + rw) else 0) = 64 - ((i * rw) mod 64 + rw)"
    using assms by simp
  then show ?thesis using assms
    unfolding dense_get_def calcPosition_eq Let_def mask_alt by simp
qed

lemma dense_get_straddle:
  assumes "\<not> (i * rw) mod 64 + rw \<le> 64" "(i * rw) div 64 + 1 < length s"
  shows "dense_get s i rw = Some (ucast (
            push_bit (rw - (64 - (i * rw) mod 64)) (s ! ((i * rw) div 64) AND mask (64 - (i * rw) mod 64))
            OR drop_bit (64 - (rw - (64 - (i * rw) mod 64))) (s ! ((i * rw) div 64 + 1))))"
  using assms unfolding dense_get_def calcPosition_eq Let_def mask_alt by simp

lemma stream_bit_word: "p < 64 \<Longrightarrow> stream_bit s (64 * idx + p) = bit (s ! idx) (63 - p)"
  by (simp add: stream_bit_def)


lemma single_bits:
  "rw \<le> 8 \<Longrightarrow> sh + rw \<le> 64 \<Longrightarrow>
   bit (ucast (drop_bit sh (push_bit sh (mask rw) AND (w::u64))) :: byte) k \<longleftrightarrow> k < rw \<and> bit w (sh + k)"
  by (auto simp add: bit_simps)

lemma straddle_bits:
  "0 < nl \<Longrightarrow> nu + nl \<le> 8 \<Longrightarrow>
   bit (ucast (push_bit nl ((w0::u64) AND mask nu) OR drop_bit (64 - nl) (w1::u64)) :: byte) k
     \<longleftrightarrow> (if k < nl then bit w1 (64 - nl + k) else k < nl + nu \<and> bit w0 (k - nl))"
  by (auto simp add: bit_simps dest: bit_imp_le_length)

lemma dense_get_bits:
  assumes rw: "1 \<le> rw" "rw \<le> 8" and len: "(i + 1) * rw \<le> 64 * length s"
  shows "\<exists>g. dense_get s i rw = Some g \<and> (\<forall>k. bit g k \<longleftrightarrow> (k < rw \<and> stream_bit s (i * rw + (rw - 1 - k))))"
proof -
  define a where "a = i * rw"
  define idx pos where "idx = a div 64" and "pos = a mod 64"
  have a: "a = 64 * idx + pos" and pos: "pos < 64" by (simp_all add: idx_def pos_def)
  have len': "a + rw \<le> 64 * length s" using len by (simp add: a_def algebra_simps)
  show ?thesis
  proof (cases "pos + rw \<le> 64")
    case True
    then have idx: "idx < length s" using len' a rw by linarith
    have sb: "stream_bit s (a + (rw - 1 - k)) = bit (s ! idx) (64 - (pos + rw) + k)" if "k < rw" for k
    proof -
      have "a + (rw - 1 - k) = 64 * idx + (pos + rw - 1 - k)" using that a by simp
      moreover have "pos + rw - 1 - k < 64" using that True by simp
      moreover have "63 - (pos + rw - 1 - k) = 64 - (pos + rw) + k" using that True by simp
      ultimately show ?thesis by (simp only: stream_bit_word)
    qed
    have g: "dense_get s i rw = Some (ucast (drop_bit (64 - (pos + rw)) 
            (push_bit (64 - (pos + rw)) (mask rw) AND s ! idx)))"
      using dense_get_single[of i rw s] True idx by (simp add: a_def idx_def pos_def)
    have "64 - (pos + rw) + rw \<le> 64" using True by simp
    from single_bits[OF rw(2) this]
    have "bit (ucast (drop_bit (64 - (pos + rw)) 
            (push_bit (64 - (pos + rw)) (mask rw) AND s ! idx)) :: byte) k \<longleftrightarrow> (k < rw \<and> stream_bit s (a + (rw - 1 - k)))" for k
      using sb[of k] by blast
    then show ?thesis unfolding g a_def by blast
  next
    case False
    then have idx: "idx + 1 < length s" using len' a rw by linarith
    define nu where "nu = 64 - pos"
    define nl where "nl = rw - nu"
    have nu: "0 < nu" "nu < rw" "nu + nl = rw" "pos = 64 - nu" "0 < nl" "nl < 8" "nu < 8"
      using False pos rw by (auto simp: nu_def nl_def)
    have g: "dense_get s i rw = Some (ucast (
            push_bit nl (s ! idx AND mask nu) OR drop_bit (64 - nl) (s ! (idx + 1))))"
      using dense_get_straddle[of i rw s] False idx by (simp add: a_def idx_def pos_def nu_def nl_def)
    have sb_hi: "stream_bit s (a + (rw - 1 - k)) = bit (s ! idx) (k - nl)" if "nl \<le> k" "k < rw" for k
    proof -
      have "a + (rw - 1 - k) = 64 * idx + (pos + (rw - 1 - k))" using that a by simp
      moreover have "pos + (rw - 1 - k) < 64" using that nu by simp
      moreover have "63 - (pos + (rw - 1 - k)) = k - nl" using that nu by simp
      ultimately show ?thesis by (simp only: stream_bit_word)
    qed
    have sb_lo: "stream_bit s (a + (rw - 1 - k)) = bit (s ! (idx + 1)) (64 - nl + k)" if "k < nl" for k
    proof -
      have "a + (rw - 1 - k) = 64 * (idx + 1) + (nl - 1 - k)" using that a nu by simp
      moreover have "nl - 1 - k < 64" using that nu by simp
      moreover have "63 - (nl - 1 - k) = 64 - nl + k" using that nu by simp
      ultimately show ?thesis by (simp only: stream_bit_word)
    qed
    have "nu + nl \<le> 8" using nu rw by simp
    from straddle_bits[OF nu(5) this]
    have "bit (ucast (push_bit nl (s ! idx AND mask nu) OR drop_bit (64 - nl) (s ! (idx + 1))) :: byte) k
         \<longleftrightarrow> (k < rw \<and> stream_bit s (a + (rw - 1 - k)))" for k
      using sb_lo[of k] sb_hi[of k] nu(3) by (cases "k < nl"; cases "k < rw"; simp)
    then show ?thesis unfolding g a_def by blast
  qed
qed


lemma dense_setIfGreater_single:
  assumes "(i * regwidth st) mod 64 + regwidth st \<le> 64" "(i * regwidth st) div 64 < length s"
  shows "dense_setIfGreater s st i v =
     Some (let sh = 64 - ((i * regwidth st) mod 64 + regwidth st); idx = (i * regwidth st) div 64 in
           if v > the (dense_get s i (regwidth st))
           then s[idx := (NOT (push_bit sh (mask (regwidth st))) AND s ! idx)
                           OR push_bit sh (ucast v AND mask (regwidth st))]
           else s)"
proof -
  have "(\<not> (i * regwidth st) mod 64 + regwidth st < 64) \<Longrightarrow> 64 - ((i * regwidth st) mod 64 + regwidth st) = 0"
    using assms by simp
  then show ?thesis using assms
    unfolding dense_setIfGreater_def calcPosition_eq Let_def mask_alt dense_get_single[OF assms]
    by (auto simp add: Let_def)
qed

lemma dense_setIfGreater_straddle:
  assumes "\<not> (i * regwidth st) mod 64 + regwidth st \<le> 64" "(i * regwidth st) div 64 + 1 < length s"
  shows "dense_setIfGreater s st i v =
     Some (let nu = 64 - (i * regwidth st) mod 64; nl = regwidth st - nu; idx = (i * regwidth st) div 64 in
           if v \<ge> the (dense_get s i (regwidth st))
           then s[idx := (NOT (mask nu) AND s ! idx) OR (drop_bit nl (ucast v) AND mask nu),
                  idx + 1 := (NOT (push_bit (64 - nl) (mask nl)) AND s ! (idx + 1))
                              OR push_bit (64 - nl) (ucast v AND mask nl)]
           else s)"
  using assms
  unfolding dense_setIfGreater_def calcPosition_eq Let_def mask_alt dense_get_straddle[OF assms]
  by (auto simp add: Let_def)

lemma single_write_bits:
  "rw \<le> 8 \<Longrightarrow> sh + rw \<le> 64 \<Longrightarrow> q < 64 \<Longrightarrow>
   bit ((NOT (push_bit sh (mask rw)) AND (w::u64)) OR push_bit sh (ucast (v::byte) AND mask rw)) q
     \<longleftrightarrow> (if sh \<le> q \<and> q < sh + rw then bit v (q - sh) else bit w q)"
  by (auto simp add: bit_simps)

lemma upper_write_bits:
  "nu + nl \<le> 8 \<Longrightarrow> q < 64 \<Longrightarrow>
   bit ((NOT (mask nu) AND (w::u64)) OR (drop_bit nl (ucast (v::byte)) AND mask nu)) q
     \<longleftrightarrow> (if q < nu then bit v (q + nl) else bit w q)"
  by (auto simp add: bit_simps add.commute)

lemma lower_write_bits:
  "0 < nl \<Longrightarrow> nl \<le> 8 \<Longrightarrow> q < 64 \<Longrightarrow>
   bit ((NOT (push_bit (64 - nl) (mask nl)) AND (w::u64)) OR push_bit (64 - nl) (ucast (v::byte) AND mask nl)) q
     \<longleftrightarrow> (if 64 - nl \<le> q then bit v (q - (64 - nl)) else bit w q)"
  by (auto simp add: bit_simps)


lemma dense_setIfGreater_stream:
  assumes rw: "1 \<le> regwidth st" "regwidth st \<le> 8"
    and len: "(i + 1) * regwidth st \<le> 64 * length s"
  shows "\<exists>s'. dense_setIfGreater s st i v = Some s' \<and> length s' = length s \<and>
           (\<forall>n < 64 * length s. stream_bit s' n \<longleftrightarrow>
              (if i * regwidth st \<le> n \<and> n < i * regwidth st + regwidth st
                    \<and> the (dense_get s i (regwidth st)) < v
               then bit v (i * regwidth st + regwidth st - 1 - n)
               else stream_bit s n))"
proof -
  define rw where "rw = regwidth st"
  define a where "a = i * rw"
  define idx pos where "idx = a div 64" and "pos = a mod 64"
  have a: "a = 64 * idx + pos" and pos: "pos < 64" by (simp_all add: idx_def pos_def)
  have len': "a + rw \<le> 64 * length s" using len by (simp add: a_def rw_def algebra_simps)
  note rw' = rw[folded rw_def]
  obtain g where g: "dense_get s i rw = Some g"
    and gbits: "\<And>k. bit g k \<longleftrightarrow> (k < rw \<and> stream_bit s (a + (rw - 1 - k)))"
    using dense_get_bits[OF rw' len[folded rw_def]] unfolding a_def by blast
  show ?thesis
  proof (cases "pos + rw \<le> 64")
    case True
    then have idx: "idx < length s" using len' a rw' by linarith
    define sh where "sh = 64 - (pos + rw)"
    have sh: "sh + rw \<le> 64" "pos + rw + sh = 64" using True by (simp_all add: sh_def)
    define neww where "neww = (NOT (push_bit sh (mask rw)) AND s ! idx)
                           OR push_bit sh (ucast v AND mask rw)"
    have s': "dense_setIfGreater s st i v = Some (if v > g then s[idx := neww] else s)"
      using dense_setIfGreater_single[of i st s v] True idx g
      by (simp add: a_def idx_def pos_def rw_def Let_def neww_def sh_def)
    have "stream_bit (s[idx := neww]) n \<longleftrightarrow>
              (if a \<le> n \<and> n < a + rw then bit v (a + rw - 1 - n) else stream_bit s n)"
      if n: "n < 64 * length s" for n
    proof (cases "n div 64 = idx")
      case t: True
      define p where "p = n mod 64"
      have np: "n = 64 * idx + p" "p < 64" using t by (auto simp: p_def)
      have "stream_bit (s[idx := neww]) n = bit neww (63 - p)"
        using idx by (simp add: stream_bit_def t p_def)
      also have "\<dots> \<longleftrightarrow> (if sh \<le> 63 - p \<and> 63 - p < sh + rw then bit v (63 - p - sh) else bit (s ! idx) (63 - p))"
        unfolding neww_def by (rule single_write_bits) (use rw' sh np in simp_all)
      also have "\<dots> \<longleftrightarrow> (if a \<le> n \<and> n < a + rw then bit v (a + rw - 1 - n) else stream_bit s n)"
      proof -
        have 1: "(sh \<le> 63 - p \<and> 63 - p < sh + rw) \<longleftrightarrow> (a \<le> n \<and> n < a + rw)"
          using np a sh by auto
        have 2: "a \<le> n \<Longrightarrow> n < a + rw \<Longrightarrow> 63 - p - sh = a + rw - 1 - n"
          using np a sh by auto
        have 3: "bit (s ! idx) (63 - p) = stream_bit s n"
          by (simp add: stream_bit_def t p_def)
        show ?thesis using 1 2 3 by auto
      qed
      finally show ?thesis .
    next
      case f: False
      have "\<not> (a \<le> n \<and> n < a + rw)"
      proof
        assume "a \<le> n \<and> n < a + rw"
        then have "64 * idx \<le> n" "n < 64 * idx + 64" using a True by auto
        then have "n div 64 = idx" by (simp add: div_nat_eqI mult.commute)
        with f show False by simp
      qed
      then show ?thesis using f by (auto simp add: stream_bit_def)
    qed
    then show ?thesis unfolding s' g a_def[symmetric] rw_def[symmetric]
      by (auto simp: less_imp_le)
  next
    case False
    then have idx: "idx + 1 < length s" using len' a rw' by linarith
    define nu where "nu = 64 - pos"
    define nl where "nl = rw - nu"
    have nu: "0 < nu" "nu < rw" "nu + nl = rw" "pos = 64 - nu" "0 < nl" "nl < 8" "nu < 8" "nu + nl \<le> 8" "nl \<le> 8"
      using False pos rw' by (auto simp: nu_def nl_def)
    define w0 where "w0 = (NOT (mask nu) AND s ! idx) OR (drop_bit nl (ucast v) AND mask nu)"
    define w1 where "w1 = (NOT (push_bit (64 - nl) (mask nl)) AND s ! (idx + 1))
                              OR push_bit (64 - nl) (ucast v AND mask nl)"
    have s': "dense_setIfGreater s st i v = Some (if v \<ge> g then s[idx := w0, idx + 1 := w1] else s)"
      using dense_setIfGreater_straddle[of i st s v] False idx g
      by (simp add: a_def idx_def pos_def rw_def Let_def w0_def w1_def nu_def nl_def)
    have W: "stream_bit (s[idx := w0, idx + 1 := w1]) n \<longleftrightarrow>
              (if a \<le> n \<and> n < a + rw then bit v (a + rw - 1 - n) else stream_bit s n)"
      if n: "n < 64 * length s" for n
    proof -
      define p where "p = n mod 64"
      have p: "p < 64" by (simp add: p_def)
      consider (A) "n div 64 = idx" | (B) "n div 64 = idx + 1" | (C) "n div 64 \<noteq> idx" "n div 64 \<noteq> idx + 1"
        by blast
      then show ?thesis
      proof cases
        case A
        have np: "n = 64 * idx + p" using A by (auto simp: p_def)
        have "stream_bit (s[idx := w0, idx + 1 := w1]) n = bit w0 (63 - p)"
          using idx by (simp add: stream_bit_def A p_def)
        also have "\<dots> \<longleftrightarrow> (if 63 - p < nu then bit v (63 - p + nl) else bit (s ! idx) (63 - p))"
          unfolding w0_def by (rule upper_write_bits) (use nu in simp_all)
        also have "\<dots> \<longleftrightarrow> (if a \<le> n \<and> n < a + rw then bit v (a + rw - 1 - n) else stream_bit s n)"
        proof -
          have 1: "(63 - p < nu) \<longleftrightarrow> (a \<le> n \<and> n < a + rw)"
            using np a nu p by auto
          have 2: "a \<le> n \<Longrightarrow> n < a + rw \<Longrightarrow> 63 - p + nl = a + rw - 1 - n"
            using np a nu p by auto
          have 3: "bit (s ! idx) (63 - p) = stream_bit s n"
            by (simp add: stream_bit_def A p_def)
          show ?thesis using 1 2 3 by auto
        qed
        finally show ?thesis .
      next
        case B
        have np: "n = 64 * (idx + 1) + p" using div_mult_mod_eq[of n 64] B by (simp add: p_def)
        have "stream_bit (s[idx := w0, idx + 1 := w1]) n = bit w1 (63 - p)"
          using idx by (simp add: stream_bit_def B p_def)
        also have "\<dots> \<longleftrightarrow> (if 64 - nl \<le> 63 - p then bit v (63 - p - (64 - nl)) else bit (s ! (idx + 1)) (63 - p))"
          unfolding w1_def by (rule lower_write_bits) (use nu in simp_all)
        also have "\<dots> \<longleftrightarrow> (if a \<le> n \<and> n < a + rw then bit v (a + rw - 1 - n) else stream_bit s n)"
        proof -
          have 1: "(64 - nl \<le> 63 - p) \<longleftrightarrow> (a \<le> n \<and> n < a + rw)"
            using np a nu p by auto
          have 2: "a \<le> n \<Longrightarrow> n < a + rw \<Longrightarrow> 63 - p - (64 - nl) = a + rw - 1 - n"
            using np a nu p by auto
          have 3: "bit (s ! (idx + 1)) (63 - p) = stream_bit s n"
            by (simp add: stream_bit_def B p_def)
          show ?thesis using 1 2 3 by auto
        qed
        finally show ?thesis .
      next
        case C
        have "\<not> (a \<le> n \<and> n < a + rw)"
        proof
          assume "a \<le> n \<and> n < a + rw"
          then have "64 * idx \<le> n" "n < 64 * idx + 128" using a nu by auto
          then have "n div 64 = idx \<or> n div 64 = idx + 1" by auto
          with C show False by simp
        qed
        then show ?thesis using C by (auto simp add: stream_bit_def)
      qed
    qed
    show ?thesis
    proof (cases "g < v")
      case True
      then show ?thesis unfolding s' g a_def[symmetric] rw_def[symmetric]
        using W by (auto simp: less_imp_le)
    next
      case ng: False
      show ?thesis
      proof (cases "g = v")
        case True
        have "stream_bit (s[idx := w0, idx + 1 := w1]) n \<longleftrightarrow> stream_bit s n" if n: "n < 64 * length s" for n
        proof (cases "a \<le> n \<and> n < a + rw")
          case t: True
          then have "a + (rw - 1 - (a + rw - 1 - n)) = n" "a + rw - 1 - n < rw" by auto
          with gbits[of "a + rw - 1 - n"] have "bit g (a + rw - 1 - n) = stream_bit s n" by simp
          then show ?thesis using W[OF n] t True by simp
        next
          case False
          then show ?thesis using W[OF n] by auto
        qed
        then show ?thesis unfolding s' g a_def[symmetric] rw_def[symmetric]
          using True by auto
      next
        case False
        with ng have "\<not> g \<le> v" by auto
        then show ?thesis unfolding s' g a_def[symmetric] rw_def[symmetric]
          using ng by auto
      qed
    qed
  qed
qed

lemma le_8_mult_round: "(y::nat) \<le> 8 * ((y + 7) div 8)"
proof -
  have "y + 7 = 8 * ((y + 7) div 8) + (y + 7) mod 8" by simp
  moreover have "(y + 7) mod 8 < 8" by simp
  ultimately show ?thesis by linarith
qed

lemma newDenseStorage_length:
  "length (newDenseStorage st) = divideBy8RoundUp (divideBy8RoundUp (2 ^ log2m st * regwidth st))"
  by (simp add: newDenseStorage_def Let_def push_bit_eq_mult)

lemma newDenseStorage_bits: "2 ^ log2m st * regwidth st \<le> 64 * length (newDenseStorage st)"
proof -
  let ?x = "2 ^ log2m st * regwidth st"
  have "?x \<le> 8 * ((?x + 7) div 8)" by (rule le_8_mult_round)
  also have "\<dots> \<le> 8 * (8 * ((((?x + 7) div 8) + 7) div 8))"
    by (rule mult_le_mono2) (rule le_8_mult_round)
  finally show ?thesis by (simp add: newDenseStorage_length divideBy8RoundUp_eq)
qed

lemma register_in_range:
  assumes "i < 2 ^ log2m st" "length s = length (newDenseStorage st)"
  shows "(i + 1) * regwidth st \<le> 64 * length s"
proof -
  have "(i + 1) * regwidth st \<le> 2 ^ log2m st * regwidth st"
    using assms(1) by (intro mult_le_mono1) simp
  also note newDenseStorage_bits
  finally show ?thesis using assms(2) by simp
qed

lemma bit_byte_bound: "unat (v::byte) < 2 ^ n \<Longrightarrow> bit v k \<Longrightarrow> k < n"
proof -
  assume a: "unat v < 2 ^ n" "bit v k"
  have "take_bit n (unat v) = unat v" using a(1) by (simp add: take_bit_nat_eq_self)
  moreover have "bit (unat v) k" using a(2) by (simp add: bit_unsigned_iff)
  ultimately have "bit (take_bit n (unat v)) k" by simp
  then show ?thesis by (simp add: bit_take_bit_iff)
qed

lemma stream_bits_eq_imp_eq:
  assumes "length s' = length s" "\<And>n. n < 64 * length s \<Longrightarrow> stream_bit s' n = stream_bit s n"
  shows "s' = s"
proof (rule nth_equalityI)
  show "length s' = length s" by fact
next
  fix w assume w: "w < length s'"
  show "s' ! w = s ! w"
  proof (rule bit_word_eqI)
    fix b assume "b < LENGTH(64)"
    then have b: "b < 64" by simp
    have "64 * w + (63 - b) < 64 * length s" using w assms(1) b by simp
    from assms(2)[OF this]
    have "bit (s' ! w) (63 - (63 - b)) = bit (s ! w) (63 - (63 - b))"
      by (simp only: stream_bit_word[of "63 - b"] diff_less_Suc less_Suc_eq_le diff_le_self
            stream_bit_def) simp
    moreover have "63 - (63 - b) = b" using b by simp
    ultimately show "bit (s' ! w) b = bit (s ! w) b" by simp
  qed
qed

lemma disjoint_registers:
  assumes "j \<noteq> (i::nat)" "j * rw \<le> n" "n < j * rw + rw"
  shows "\<not> (i * rw \<le> n \<and> n < i * rw + rw)"
proof
  assume h: "i * rw \<le> n \<and> n < i * rw + rw"
  show False
  proof (cases "j < i")
    case True
    then have "(j + 1) * rw \<le> i * rw" by (intro mult_le_mono1) simp
    with assms h show False by simp
  next
    case False
    with assms(1) have "(i + 1) * rw \<le> j * rw" by (intro mult_le_mono1) simp
    with assms h show False by simp
  qed
qed

lemma dense_setIfGreater_get:
  assumes rw: "1 \<le> regwidth st" "regwidth st \<le> 8"
    and len: "(i + 1) * regwidth st \<le> 64 * length s"
  shows "\<exists>s' old. dense_get s i (regwidth st) = Some old
           \<and> dense_setIfGreater s st i v = Some s'
           \<and> length s' = length s
           \<and> (\<forall>j. (j + 1) * regwidth st \<le> 64 * length s \<longrightarrow> j \<noteq> i \<longrightarrow>
                  dense_get s' j (regwidth st) = dense_get s j (regwidth st))
           \<and> (unat v < 2 ^ regwidth st \<longrightarrow> dense_get s' i (regwidth st) = Some (max old v))
           \<and> (v \<le> old \<longrightarrow> s' = s)"
proof -
  define rw where "rw = regwidth st"
  note rw' = rw[folded rw_def] and len' = len[folded rw_def]
  obtain old where old: "dense_get s i rw = Some old"
    and oldbits: "\<And>k. bit old k \<longleftrightarrow> (k < rw \<and> stream_bit s (i * rw + (rw - 1 - k)))"
    using dense_get_bits[OF rw' len'] by blast
  obtain s' where s': "dense_setIfGreater s st i v = Some s'" and l: "length s' = length s"
    and sb: "\<And>n. n < 64 * length s \<Longrightarrow> stream_bit s' n \<longleftrightarrow>
              (if i * rw \<le> n \<and> n < i * rw + rw \<and> old < v
               then bit v (i * rw + rw - 1 - n) else stream_bit s n)"
    using dense_setIfGreater_stream[OF rw len, of v] old unfolding rw_def by auto
  have other: "dense_get s' j rw = dense_get s j rw"
    if j: "(j + 1) * rw \<le> 64 * length s" "j \<noteq> i" for j
  proof -
    obtain g where g: "dense_get s j rw = Some g"
      and gb: "\<And>k. bit g k \<longleftrightarrow> (k < rw \<and> stream_bit s (j * rw + (rw - 1 - k)))"
      using dense_get_bits[OF rw' j(1)] by blast
    obtain g' where g': "dense_get s' j rw = Some g'"
      and gb': "\<And>k. bit g' k \<longleftrightarrow> (k < rw \<and> stream_bit s' (j * rw + (rw - 1 - k)))"
      using dense_get_bits[OF rw', of j s'] j(1) l by auto
    have "bit g' k = bit g k" for k
    proof (cases "k < rw")
      case True
      let ?n = "j * rw + (rw - 1 - k)"
      have n: "j * rw \<le> ?n" "?n < j * rw + rw" using True by auto
      then have "?n < 64 * length s" using j(1) by (simp add: algebra_simps)
      from sb[OF this] disjoint_registers[OF j(2) n]
      have "stream_bit s' ?n = stream_bit s ?n" by auto
      then show ?thesis by (simp add: gb gb')
    next
      case False
      then show ?thesis by (simp add: gb gb')
    qed
    then have "g' = g" by (simp add: bit_eq_iff)
    then show ?thesis by (simp add: g g')
  qed
  have self: "dense_get s' i rw = Some (max old v)" if v: "unat v < 2 ^ rw"
  proof -
    obtain g' where g': "dense_get s' i rw = Some g'"
      and gb': "\<And>k. bit g' k \<longleftrightarrow> (k < rw \<and> stream_bit s' (i * rw + (rw - 1 - k)))"
      using dense_get_bits[OF rw', of i s'] len' l by auto
    have sn: "stream_bit s' (i * rw + (rw - 1 - k)) = (if old < v then bit v k else stream_bit s (i * rw + (rw - 1 - k)))"
      if "k < rw" for k
    proof -
      let ?n = "i * rw + (rw - 1 - k)"
      have n: "i * rw \<le> ?n" "?n < i * rw + rw" "i * rw + rw - 1 - ?n = k" using that by auto
      then have "?n < 64 * length s" using len' by (simp add: algebra_simps)
      from sb[OF this] n show ?thesis by auto
    qed
    have "bit g' k = bit (max old v) k" for k
    proof (cases "old < v")
      case True
      then have "max old v = v" by (auto simp add: max_def)
      moreover have "bit g' k = bit v k"
        using bit_byte_bound[OF v, of k] sn[of k] True by (auto simp add: gb')
      ultimately show ?thesis by simp
    next
      case False
      then have "max old v = old" by (auto simp add: max_def)
      moreover have "bit g' k = bit old k"
        using sn[of k] False by (auto simp add: gb' oldbits)
      ultimately show ?thesis by simp
    qed
    then have "g' = max old v" by (simp add: bit_eq_iff)
    then show ?thesis by (simp add: g')
  qed
  have same: "s' = s" if "v \<le> old"
  proof (rule stream_bits_eq_imp_eq[OF l])
    fix n assume "n < 64 * length s"
    from sb[OF this] that show "stream_bit s' n = stream_bit s n" by auto
  qed
  show ?thesis
    using old s' l other self same unfolding rw_def by blast
qed

text \<open>
  C4.  For every dense storage of valid settings, register index \<open>i\<close> in \<open>[0, m)\<close> and
  value \<open>v \<le> max_reg_value\<close>, \<^verbatim>\<open>setIfGreater(i, v)\<close> reads register \<open>i\<close> and changes the
  storage only if \<open>v\<close> is strictly greater than the value read; afterwards register \<open>i\<close>
  holds the maximum of its old value and \<open>v\<close>, and every other register is unchanged.
  This covers the registers that lie across two consecutive 64-bit words.
\<close>

theorem dense_setIfGreater_max:
  assumes "valid_settings st"
    and "length s = length (newDenseStorage st)"
    and "i < 2 ^ log2m st"
    and "unat v \<le> 2 ^ regwidth st - 1"
  shows "\<exists>old s'. dense_get s i (regwidth st) = Some old
           \<and> dense_setIfGreater s st i v = Some s'
           \<and> length s' = length s
           \<and> dense_get s' i (regwidth st) = Some (max old v)
           \<and> (\<forall>j < 2 ^ log2m st. j \<noteq> i \<longrightarrow>
                  dense_get s' j (regwidth st) = dense_get s j (regwidth st))
           \<and> (s' \<noteq> s \<longrightarrow> old < v)"
proof -
  have rw: "1 \<le> regwidth st" "regwidth st \<le> 8"
    using assms(1) by (simp_all add: valid_settings_def)
  have v: "unat v < 2 ^ regwidth st"
    using assms(4) by (metis One_nat_def Suc_pred le_imp_less_Suc zero_less_numeral zero_less_power)
  have len: "(i + 1) * regwidth st \<le> 64 * length s"
    using register_in_range[OF assms(3) assms(2)] .
  have rng: "(j + 1) * regwidth st \<le> 64 * length s" if "j < 2 ^ log2m st" for j
    using register_in_range[OF that assms(2)] .
  from dense_setIfGreater_get[OF rw len, of v] v rng
  show ?thesis by (metis not_le)
qed

lemma settings_4_5_toInternal:
  "toInternal \<lparr> Log2m = 4, Regwidth = 5, ExplicitThreshold = 0, SparseEnabled = True \<rparr>
     = Inr settings_4_5"
  by (simp add: toInternal_def validate_def param_defs calculateSparseThreshold_def
      bit_length.simps settings_4_5_def pwMaxMask_of_def)

lemma valid_settings_4_5: "valid_settings settings_4_5"
  by (simp add: valid_settings_def settings_4_5_def pwMaxMask_of_def)

theorem dense_setIfGreater_max_witness:
  "valid_settings settings_4_5
   \<and> length [0, 0 :: u64] = length (newDenseStorage settings_4_5)
   \<and> (12::nat) < 2 ^ log2m settings_4_5
   \<and> unat (21::byte) \<le> 2 ^ regwidth settings_4_5 - 1
   \<and> dense_setIfGreater [0, 0] settings_4_5 12 21 = Some [10, 0x8000000000000000]
   \<and> dense_get [10, 0x8000000000000000] 12 5 = Some 21
   \<and> dense_get [10, 0x8000000000000000] 11 5 = dense_get [0, 0] 11 5"
proof -
  have h1: "valid_settings settings_4_5" by (rule valid_settings_4_5)
  have h2: "length [0, 0 :: u64] = length (newDenseStorage settings_4_5)"
    by (simp add: newDenseStorage_length divideBy8RoundUp_eq settings_4_5_def)
  have h3: "(12::nat) < 2 ^ log2m settings_4_5" by (simp add: settings_4_5_def)
  have h4: "unat (21::byte) \<le> 2 ^ regwidth settings_4_5 - 1" by (simp add: settings_4_5_def)
  have e: "dense_setIfGreater [0, 0] settings_4_5 12 21 = Some [10, 0x8000000000000000]"
    by (simp add: dense_setIfGreater_def calcPosition_eq settings_4_5_def Let_def)
  have r: "regwidth settings_4_5 = 5" "log2m settings_4_5 = 4" by (simp_all add: settings_4_5_def)
  from dense_setIfGreater_max[OF h1 h2 h3 h4] e
  have "dense_get [10, 0x8000000000000000] 12 5 = Some 21
        \<and> dense_get [10, 0x8000000000000000] 11 5 = dense_get [0, 0] 11 5"
    unfolding r by (auto simp add: dense_get_def calcPosition_eq Let_def)
  with h1 h2 h3 h4 e show ?thesis by blast
qed


subsection \<open>Evaluating the settings\<close>

lemmas eval_settings =
  toInternal_def validate_def minimumLog2mParam_def maximumLog2mParam_def minimumRegwidthParam_def
  maximumRegwidthParam_def minimumExpthreshParam_def maximumExpthreshParam_def
  maximumExplicitThreshold_def AutoExplicitThreshold_def calculateSparseThreshold_def
  calculateExplicitThreshold_def bit_length.simps pwMaxMask_of_def NewHll_def

subsection \<open>The cutoff byte\<close>

text \<open>
  C2 (evaluation of the code at an input where it departs from the claim).  Encoding
  the settings \<^verbatim>\<open>{Log2m: 11, Regwidth: 5, ExplicitThreshold: 128, SparseEnabled: true}\<close>
  gives the cutoff byte \<open>0x47\<close>, whose threshold field is \<open>Len32(128) - 1 = 7\<close>;
  decoding it gives the threshold \<open>1 << 6 = 64\<close>, not 128.
\<close>

theorem cutoff_byte_halves_threshold:
  "toInternal \<lparr> Log2m = 11, Regwidth = 5, ExplicitThreshold = 128, SparseEnabled = True \<rparr>
     = Inr settings_11_5
   \<and> packCutoffByte settings_11_5 = 0x47
   \<and> unpackCutoffByte (packCutoffByte settings_11_5) = (True, 64)"
proof -
  have 1: "toInternal \<lparr> Log2m = 11, Regwidth = 5, ExplicitThreshold = 128, SparseEnabled = True \<rparr>
     = Inr settings_11_5"
    by (simp add: eval_settings settings_11_5_def)
  have 2: "packCutoffByte settings_11_5 = 0x47"
    by (simp add: packCutoffByte_def settings_11_5_def Len32_def bit_length.simps)
  have 3: "unpackCutoffByte 0x47 = (True, 64)"
    by (simp add: unpackCutoffByte_def)
  show ?thesis by (simp only: 1 2 3 simp_thms)
qed

lemma FromBytes_sparseEnabled:
  assumes "FromBytes bytes = Some (Inr h)"
  shows "sparseEnabled (settings h) = fst (unpackCutoffByte (bytes ! 2))"
  using assms
  by (auto simp add: FromBytes_def Let_def toInternal_def
      split: if_splits prod.splits sum.splits option.splits)

lemma unpackCutoffByte_bit7_clear:
  assumes "128 \<le> b"
  shows "fst (unpackCutoffByte b) = False"
proof -
  have "unat (drop_bit 6 b) = unat b div 64"
    unfolding unat_drop_bit_eq by (simp add: drop_bit_eq_div)
  moreover have "128 \<le> unat b" using assms by (simp add: word_le_nat_alt)
  ultimately have "unat (drop_bit 6 b) \<noteq> 1" by simp
  hence "drop_bit 6 b \<noteq> 1" by auto
  thus ?thesis by (simp add: unpackCutoffByte_def Let_def)
qed

text \<open>
  C10.  For every third header byte \<open>b\<close> with bit 7 set (\<open>b \<ge> 128\<close>) the decoder reports
  \<open>sparse_enabled = false\<close>, whatever bit 6 is, and so does every counter that
  \<^verbatim>\<open>FromBytes\<close> returns for a buffer with this third byte; the byte \<open>0xFF\<close> decodes as
  sparse disabled with the automatic explicit threshold.
\<close>

theorem unpackCutoffByte_bit7:
  assumes "128 \<le> b"
  shows "fst (unpackCutoffByte b) = False
         \<and> (\<forall>b0 b1 payload h.
               FromBytes (b0 # b1 # b # payload) = Some (Inr h) \<longrightarrow>
               sparseEnabled (settings h) = False)
         \<and> unpackCutoffByte 0xFF = (False, - 1)"
proof -
  have 1: "fst (unpackCutoffByte b) = False" by (rule unpackCutoffByte_bit7_clear [OF assms])
  have 2: "sparseEnabled (settings h) = False"
    if "FromBytes (b0 # b1 # b # payload) = Some (Inr h)" for b0 b1 payload h
    using FromBytes_sparseEnabled [OF that] 1 by simp
  have 3: "unpackCutoffByte 0xFF = (False, - 1)"
    by (simp add: unpackCutoffByte_def Let_def)
  show ?thesis using 1 2 3 by blast
qed

theorem unpackCutoffByte_bit7_witness:
  "(128 :: byte) \<le> 0xFF
   \<and> fst (unpackCutoffByte 0xFF) = False
   \<and> FromBytes [0x11, 0x8B, 0xFF] = Some (Inr \<lparr> settings = settings_11_5_auto, storage = NilStorage \<rparr>)
   \<and> sparseEnabled settings_11_5_auto = False"
proof -
  have h: "(128 :: byte) \<le> 0xFF" by simp
  have f: "FromBytes [0x11, 0x8B, 0xFF]
             = Some (Inr \<lparr> settings = settings_11_5_auto, storage = NilStorage \<rparr>)"
    by (simp add: FromBytes_def unpackCutoffByte_def Let_def eval_settings
        settings_11_5_auto_def divideBy8RoundUp_def)
  from unpackCutoffByte_bit7 [OF h] f
  have "fst (unpackCutoffByte 0xFF) = False \<and> sparseEnabled settings_11_5_auto = False"
    by fastforce
  with h f show ?thesis by simp
qed

subsection \<open>Serialization of a sparse counter\<close>

text \<open>
  C1 (evaluation of the code at an input where it departs from the claim).  With
  \<^verbatim>\<open>Settings{Log2m: 4, Regwidth: 1, ExplicitThreshold: 0, SparseEnabled: true}\<close> the two
  calls \<^verbatim>\<open>AddRaw(16)\<close> and \<^verbatim>\<open>AddRaw(17)\<close> give a sparse counter with registers 0 and 1
  set to 1.  Its two entries of 5 bits are written on 2 bytes; \<^verbatim>\<open>FromBytes\<close> reads
  \<open>16 / 5 = 3\<close> entries from them, and the third, made of padding bits, sets register 0
  to 0.
\<close>

theorem sparse_round_trip_loses_register:
  "NewHll \<lparr> Log2m = 4, Regwidth = 1, ExplicitThreshold = 0, SparseEnabled = True \<rparr>
     = Inr \<lparr> settings = settings_4_1, storage = NilStorage \<rparr>
   \<and> AddRaw \<lparr> settings = settings_4_1, storage = NilStorage \<rparr> 16
     = Some \<lparr> settings = settings_4_1, storage = SparseStorage (fmupd 0 1 fmempty) \<rparr>
   \<and> AddRaw \<lparr> settings = settings_4_1, storage = SparseStorage (fmupd 0 1 fmempty) \<rparr> 17
     = Some \<lparr> settings = settings_4_1, storage = SparseStorage (fmupd 1 1 (fmupd 0 1 fmempty)) \<rparr>
   \<and> ToBytes \<lparr> settings = settings_4_1, storage = SparseStorage (fmupd 1 1 (fmupd 0 1 fmempty)) \<rparr>
     = Some [0x13, 0x04, 0x40, 0x08, 0xC0]
   \<and> FromBytes [0x13, 0x04, 0x40, 0x08, 0xC0]
     = Some (Inr \<lparr> settings = settings_4_1,
                    storage = SparseStorage (fmupd 1 1 (fmupd 0 0 fmempty)) \<rparr>)
   \<and> SparseStorage (fmupd 1 1 (fmupd 0 0 fmempty)) \<noteq> SparseStorage (fmupd 1 1 (fmupd 0 1 fmempty))
   \<and> sparse_lookup (fmupd 1 1 (fmupd 0 1 fmempty)) 0 = 1
   \<and> sparse_lookup (fmupd 1 1 (fmupd 0 0 fmempty)) 0 = 0"
  by code_simp

subsection \<open>The streaming dense union\<close>

text \<open>
  C3 (evaluation of the code at an input where it departs from the claim).  With
  \<open>log2m = 4\<close> and \<open>regwidth = 5\<close> the mask of the union, \<^verbatim>\<open>mBitsMask << (64 -
  regwidth)\<close>, covers the four low bits of a register only.  For \<open>A\<close> with register 0
  equal to 16 and \<open>B\<close> with register 0 equal to 1, the union of \<open>B\<close> into \<open>A\<close> leaves 17 in
  register 0 and the union of \<open>A\<close> into \<open>B\<close> leaves 1.
\<close>

theorem dense_union_not_commutative:
  "valid_settings settings_4_5
   \<and> length [0x8000000000000000, 0 :: u64] = length (newDenseStorage settings_4_5)
   \<and> length [0x0800000000000000, 0 :: u64] = length (newDenseStorage settings_4_5)
   \<and> dense_get [0x8000000000000000, 0] 0 5 = Some 16
   \<and> dense_get [0x0800000000000000, 0] 0 5 = Some 1
   \<and> dense_union [0x8000000000000000, 0] settings_4_5 [0x0800000000000000, 0]
        = Some [0x8800000000000000, 0]
   \<and> dense_union [0x0800000000000000, 0] settings_4_5 [0x8000000000000000, 0]
        = Some [0x0800000000000000, 0]
   \<and> dense_get [0x8800000000000000, 0] 0 5 = Some 17
   \<and> dense_union [0x8000000000000000, 0] settings_4_5 [0x0800000000000000, 0]
        \<noteq> dense_union [0x0800000000000000, 0] settings_4_5 [0x8000000000000000, 0]"
proof -
  have 1: "valid_settings settings_4_5"
    by (simp add: valid_settings_def settings_4_5_def pwMaxMask_of_def)
  have 2: "length (newDenseStorage settings_4_5) = 2"
    by (simp add: newDenseStorage_def settings_4_5_def divideBy8RoundUp_def Let_def)
  have 3: "dense_get [0x8000000000000000, 0] 0 5 = Some 16"
          "dense_get [0x0800000000000000, 0] 0 5 = Some 1"
          "dense_get [0x8800000000000000, 0] 0 5 = Some 17"
    by (simp_all add: dense_get_def calcPosition_def Let_def)
  have 4: "dense_union [0x8000000000000000, 0] settings_4_5 [0x0800000000000000, 0]
        = Some [0x8800000000000000, 0]"
    by code_simp
  have 5: "dense_union [0x0800000000000000, 0] settings_4_5 [0x8000000000000000, 0]
        = Some [0x0800000000000000, 0]"
    by code_simp
  show ?thesis unfolding 4 5 using 1 2 3 by simp
qed

subsection \<open>Union of counters with different register widths\<close>

text \<open>
  C5 (evaluation of the code at an input where it departs from the claim).  A sparse
  counter with \<open>regwidth = 1\<close> (\<open>max_reg_value = 1\<close>) united with a sparse counter with
  \<open>regwidth = 2\<close> holding the value 2 stores the value 2: the value is masked with
  \<^verbatim>\<open>byte(mBitsMask)\<close>, which is \<open>0xFF\<close> for \<open>log2m = 11\<close>.
\<close>

theorem union_stores_value_above_max:
  "NewHll \<lparr> Log2m = 11, Regwidth = 1, ExplicitThreshold = 0, SparseEnabled = True \<rparr>
     = Inr \<lparr> settings = settings_11_1, storage = NilStorage \<rparr>
   \<and> AddRaw \<lparr> settings = settings_11_1, storage = NilStorage \<rparr> 2049
     = Some \<lparr> settings = settings_11_1, storage = SparseStorage (fmupd 1 1 fmempty) \<rparr>
   \<and> NewHll \<lparr> Log2m = 11, Regwidth = 2, ExplicitThreshold = 0, SparseEnabled = True \<rparr>
     = Inr \<lparr> settings = settings_11_2, storage = NilStorage \<rparr>
   \<and> AddRaw \<lparr> settings = settings_11_2, storage = NilStorage \<rparr> 4096
     = Some \<lparr> settings = settings_11_2, storage = SparseStorage (fmupd 0 2 fmempty) \<rparr>
   \<and> Union \<lparr> settings = settings_11_1, storage = SparseStorage (fmupd 1 1 fmempty) \<rparr>
            \<lparr> settings = settings_11_2, storage = SparseStorage (fmupd 0 2 fmempty) \<rparr>
     = Some \<lparr> settings = settings_11_1,
               storage = SparseStorage (fmupd 0 2 (fmupd 1 1 fmempty)) \<rparr>
   \<and> unat (sparse_lookup (fmupd 0 2 (fmupd 1 1 fmempty)) 0) > 2 ^ regwidth settings_11_1 - 1"
proof -
  have 1: "NewHll \<lparr> Log2m = 11, Regwidth = 1, ExplicitThreshold = 0, SparseEnabled = True \<rparr>
     = Inr \<lparr> settings = settings_11_1, storage = NilStorage \<rparr>"
    by (simp add: eval_settings settings_11_1_def)
  have 2: "AddRaw \<lparr> settings = settings_11_1, storage = NilStorage \<rparr> 2049
     = Some \<lparr> settings = settings_11_1, storage = SparseStorage (fmupd 1 1 fmempty) \<rparr>"
    by code_simp
  have 3: "NewHll \<lparr> Log2m = 11, Regwidth = 2, ExplicitThreshold = 0, SparseEnabled = True \<rparr>
     = Inr \<lparr> settings = settings_11_2, storage = NilStorage \<rparr>"
    by (simp add: eval_settings settings_11_2_def)
  have 4: "AddRaw \<lparr> settings = settings_11_2, storage = NilStorage \<rparr> 4096
     = Some \<lparr> settings = settings_11_2, storage = SparseStorage (fmupd 0 2 fmempty) \<rparr>"
    by code_simp
  have 5: "Union \<lparr> settings = settings_11_1, storage = SparseStorage (fmupd 1 1 fmempty) \<rparr>
            \<lparr> settings = settings_11_2, storage = SparseStorage (fmupd 0 2 fmempty) \<rparr>
     = Some \<lparr> settings = settings_11_1,
               storage = SparseStorage (fmupd 0 2 (fmupd 1 1 fmempty)) \<rparr>"
    by code_simp
  have 6: "unat (sparse_lookup (fmupd 0 2 (fmupd 1 1 fmempty)) 0) > 2 ^ regwidth settings_11_1 - 1"
    by (simp add: sparse_lookup_def settings_11_1_def)
  show ?thesis by (simp only: 1 2 3 4 5 6 simp_thms)
qed

subsection \<open>Adding zero\<close>

text \<open>
  C7.  For every initialized counter \<open>A\<close>, in any tier, \<^verbatim>\<open>A.AddRaw(0)\<close> leaves \<open>A\<close>
  unchanged: the call returns the counter it was given, with the same storage (nothing
  is allocated or promoted) and the same serialization, hence the same cardinality.
\<close>

theorem AddRaw_zero_ignored:
  "AddRaw h 0 = Some h
   \<and> map_option storage (AddRaw h 0) = Some (storage h)
   \<and> Option.bind (AddRaw h 0) ToBytes = ToBytes h"
  by (simp add: AddRaw_def)


subsection \<open>Deserialization never panics\<close>

lemma fold_option_Some:
  assumes "\<And>x s. x \<in> set xs \<Longrightarrow> P s \<Longrightarrow> \<exists>s'. f x s = Some s' \<and> P s'"
    and "P s"
  shows "\<exists>s'. fold_option f xs s = Some s' \<and> P s'"
  using assms
proof (induction xs arbitrary: s)
  case Nil
  then show ?case by simp
next
  case (Cons x xs)
  from Cons.prems(1)[of x s] Cons.prems(2)
  obtain s1 where s1: "f x s = Some s1" "P s1" by auto
  have "\<exists>s'. fold_option f xs s1 = Some s' \<and> P s'"
    by (rule Cons.IH) (use Cons.prems(1) s1 in auto)
  then show ?case using s1 by simp
qed

lemma readBits_loop_Some:
  "pos < 8 \<Longrightarrow> 8 * idx + pos + n \<le> 8 * length bytes \<Longrightarrow>
   \<exists>v. readBits_loop bytes idx pos val n = Some v"
proof (induction n arbitrary: idx pos val rule: less_induct)
  case (less n)
  show ?case
  proof (cases "n > 0")
    case False
    then show ?thesis by (subst readBits_loop.simps) simp
  next
    case True
    have idx: "idx < length bytes" using True less.prems by linarith
    have A: "\<exists>v. readBits_loop bytes i p val' 0 = Some v" for i p val'
      by (subst readBits_loop.simps) simp
    have B: "\<exists>v. readBits_loop bytes (Suc idx) 0 val' (n + pos - 8) = Some v"
      if "\<not> n < 8 - pos" for val'
      by (rule less.IH) (use that less.prems True in auto)
    show ?thesis using True idx less.prems(1) A B
      by (subst readBits_loop.simps) (simp add: Let_def)
  qed
qed

lemma readBits_Some:
  assumes "addr + n \<le> 8 * length bytes"
  shows "\<exists>v. readBits bytes addr n = Some v"
proof -
  have "8 * (addr div 8) + addr mod 8 + n \<le> 8 * length bytes" using assms by simp
  then show ?thesis
    unfolding readBits_def drop_bit_eq_div take_bit_eq_mod
    by (intro readBits_loop_Some) simp_all
qed

lemma sparse_fromBytes_Some:
  "\<exists>s'. sparse_fromBytes s st bytes = Some (Inr s')"
proof -
  define bpr where "bpr = regwidth st + log2m st"
  have X: "\<exists>s'. fold_option
              (\<lambda>i s'. case readBits bytes (i * bpr) bpr of
                          None \<Rightarrow> None
                        | Some regAndVal \<Rightarrow> Some (g regAndVal s'))
              [0..<(8 * length bytes) div bpr] s = Some s' \<and> True" for g
  proof (rule fold_option_Some)
    fix i s0 assume i: "i \<in> set [0..<(8 * length bytes) div bpr]"
    then have "(i + 1) * bpr \<le> ((8 * length bytes) div bpr) * bpr"
      by (intro mult_le_mono1) simp
    also have "\<dots> \<le> 8 * length bytes" by simp
    finally have "i * bpr + bpr \<le> 8 * length bytes" by (simp add: algebra_simps)
    from readBits_Some[OF this] obtain v where "readBits bytes (i * bpr) bpr = Some v" by blast
    then show "\<exists>s'. (case readBits bytes (i * bpr) bpr of
                          None \<Rightarrow> None
                        | Some regAndVal \<Rightarrow> Some (g regAndVal s0)) = Some s' \<and> True"
      by simp
  qed simp
  obtain s' where "fold_option
              (\<lambda>i s'. case readBits bytes (i * bpr) bpr of
                          None \<Rightarrow> None
                        | Some regAndVal \<Rightarrow>
                            Some (fmupd (unat (drop_bit (regwidth st) regAndVal))
                                    (ucast regAndVal AND (word_of_nat (push_bit (regwidth st) (1::nat) - 1) :: byte)) s'))
              [0..<(8 * length bytes) div bpr] s = Some s'"
    using X[of "\<lambda>regAndVal s'. fmupd (unat (drop_bit (regwidth st) regAndVal))
                                    (ucast regAndVal AND (word_of_nat (push_bit (regwidth st) (1::nat) - 1) :: byte)) s'"]
    by blast
  then show ?thesis
    unfolding sparse_fromBytes_def Let_def bpr_def by (simp only: option.map) blast
qed

lemma explicit_fromBytes_loop_Some:
  "length bytes mod 8 = 0 \<Longrightarrow> i mod 8 = 0 \<Longrightarrow> \<exists>s'. explicit_fromBytes_loop s bytes i = Some s'"
proof (induction s bytes i rule: explicit_fromBytes_loop.induct)
  case (1 s bytes i)
  show ?case
  proof (cases "i < length bytes")
    case False
    then show ?thesis by (subst explicit_fromBytes_loop.simps) simp
  next
    case True
    have "i + 8 \<le> length bytes"
    proof -
      have "8 dvd length bytes" "8 dvd i" using "1.prems" by (simp_all add: dvd_eq_mod_eq_0)
      then obtain a b where "length bytes = 8 * a" "i = 8 * b" by (auto elim!: dvdE)
      with True show ?thesis by simp
    qed
    then obtain v where v: "getUint64 bytes i = Some v" by (simp add: getUint64_def)
    have "(i + 8) mod 8 = 0" using "1.prems" by simp
    from "1.IH"[OF True v "1.prems"(1) this] True v
    show ?thesis by (subst explicit_fromBytes_loop.simps) simp
  qed
qed

lemma explicit_fromBytes_result:
  "explicit_fromBytes s st bytes =
     (if length bytes mod 8 \<noteq> 0 then Some (Inl ErrInsufficientBytes)
      else Some (Inr (the (explicit_fromBytes_loop s bytes 0))))"
  using explicit_fromBytes_loop_Some[of bytes 0 s]
  by (auto simp add: explicit_fromBytes_def)

lemma dense_fromBytes_result:
  assumes "length s = divideBy8RoundUp (divideBy8RoundUp (push_bit (log2m st) (1::nat) * regwidth st))"
  shows "length bytes \<noteq> divideBy8RoundUp (push_bit (log2m st) (1::nat) * regwidth st)
           \<longrightarrow> dense_fromBytes s st bytes = Some (Inl ErrInsufficientBytes)"
    and "length bytes = divideBy8RoundUp (push_bit (log2m st) (1::nat) * regwidth st)
           \<longrightarrow> (\<exists>s'. dense_fromBytes s st bytes = Some (Inr s'))"
proof -
  show "length bytes \<noteq> divideBy8RoundUp (push_bit (log2m st) (1::nat) * regwidth st)
           \<longrightarrow> dense_fromBytes s st bytes = Some (Inl ErrInsufficientBytes)"
    by (simp add: dense_fromBytes_def)
  show "length bytes = divideBy8RoundUp (push_bit (log2m st) (1::nat) * regwidth st)
           \<longrightarrow> (\<exists>s'. dense_fromBytes s st bytes = Some (Inr s'))"
  proof
    assume n: "length bytes = divideBy8RoundUp (push_bit (log2m st) (1::nat) * regwidth st)"
    define n where "n = length bytes"
    have L: "length s = (n + 7) div 8" using assms n by (simp add: n_def divideBy8RoundUp_eq)
    have 1: "\<exists>s1. fold_option
                   (\<lambda>i s'. case getUint64 bytes (i * 8) of
                               None \<Rightarrow> None
                             | Some w \<Rightarrow> if i < length s' then Some (s'[i := w]) else None)
                   [0..<n div 8] s = Some s1 \<and> length s1 = length s"
    proof (rule fold_option_Some)
      fix i and s0 :: "u64 list"
      assume i: "i \<in> set [0..<n div 8]" and s0: "length s0 = length s"
      have "(i + 1) * 8 \<le> (n div 8) * 8" by (intro mult_le_mono1) (use i in simp)
      also have "\<dots> \<le> n" by simp
      finally have "i * 8 + 8 \<le> n" by simp
      then obtain w where "getUint64 bytes (i * 8) = Some w" by (simp add: getUint64_def n_def)
      moreover have "i < length s0"
      proof -
        have "n div 8 \<le> (n + 7) div 8" by (rule div_le_mono) simp
        then show ?thesis using i s0 L by simp
      qed
      ultimately show "\<exists>s'. (case getUint64 bytes (i * 8) of
                               None \<Rightarrow> None
                             | Some w \<Rightarrow> if i < length s0 then Some (s0[i := w]) else None) = Some s' \<and> length s' = length s"
        using s0 by auto
    qed simp
    have 2: "\<exists>lv. fold_option
                          (\<lambda>i lastValue.
                             if n - (n mod 8 - i) < length bytes
                             then Some (lastValue OR
                                    push_bit (64 - 8 * (i + 1)) (ucast (bytes ! (n - (n mod 8 - i)))))
                             else None)
                          [0..<n mod 8] (0::u64) = Some lv \<and> True"
    proof (rule fold_option_Some)
      fix i and lv :: u64 assume i: "i \<in> set [0..<n mod 8]"
      have "n mod 8 \<le> n" by simp
      with i have "n - (n mod 8 - i) < length bytes" unfolding n_def by simp
      then show "\<exists>s'. (if n - (n mod 8 - i) < length bytes
                             then Some (lv OR
                                    push_bit (64 - 8 * (i + 1)) (ucast (bytes ! (n - (n mod 8 - i)))))
                             else None) = Some s' \<and> True" by simp
    qed simp
    have 3: "length s \<noteq> 0" if "n mod 8 > 0"
    proof -
      have "n > 0" using that by (cases "n = 0") simp_all
      then have "8 div 8 \<le> (n + 7) div 8" by (intro div_le_mono) simp
      then show ?thesis using L by simp
    qed
    from 1 2 3 show "\<exists>s'. dense_fromBytes s st bytes = Some (Inr s')"
      using n by (auto simp add: dense_fromBytes_def Let_def n_def[symmetric])
  qed
qed

subsection \<open>The header of a serialized counter\<close>

lemma header_log2m: "uint ((b::byte) AND 0x1f) \<le> 31" "unat (b AND 0x1f) \<le> 31"
proof -
  have "unat (b AND 0x1f) \<le> unat (0x1f :: byte)"
    by (rule word_and_le1 [THEN word_le_nat_alt [THEN iffD1]])
  then show "unat (b AND 0x1f) \<le> 31" by simp
  then show "uint (b AND 0x1f) \<le> 31" by (simp only: uint_nat)
qed

lemma header_regwidth:
  "unat (drop_bit 5 (b::byte) + 1) = unat (drop_bit 5 b) + 1"
  "unat (drop_bit 5 b) \<le> 7"
proof -
  have "unat (drop_bit 5 b) = unat b div 32"
    unfolding unat_drop_bit_eq by (simp add: drop_bit_eq_div)
  moreover have "unat b < 256" using unsigned_less[of b, where 'a = nat] by simp
  ultimately show 2: "unat (drop_bit 5 b) \<le> 7" by simp
  then have "unat (drop_bit 5 b) + unat (1::byte) < 2 ^ LENGTH(8)" by simp
  then show "unat (drop_bit 5 b + 1) = unat (drop_bit 5 b) + 1"
    by (simp only: unat_add_lem [THEN iffD1] unat_1)
qed

lemma header_code:
  "unat ((b::byte) AND 0x3f) \<le> 63"
  "b AND 0x3f \<noteq> 0 \<Longrightarrow> unat ((b AND 0x3f) - 1) = unat (b AND 0x3f) - 1"
proof -
  have "unat (b AND 0x3f) \<le> unat (0x3f :: byte)"
    by (rule word_and_le1 [THEN word_le_nat_alt [THEN iffD1]])
  then show "unat (b AND 0x3f) \<le> 63" by simp
  show "unat ((b AND 0x3f) - 1) = unat (b AND 0x3f) - 1" if "b AND 0x3f \<noteq> 0"
    using that by (simp add: unat_minus_one)
qed

lemma unpackCutoffByte_threshold:
  "snd (unpackCutoffByte b) =
     (let code = unat (b AND 0x3f)
      in if code = 0 then 0 else if code = 63 then - 1 else 2 ^ (code - 1))"
proof -
  have "(b AND 0x3f = 0) = (unat (b AND 0x3f) = 0)" by (simp add: unat_eq_0)
  moreover have "(b AND 0x3f = 63) = (unat (b AND 0x3f) = 63)"
  proof -
    have "(b AND 0x3f = 63) = (unat (b AND 0x3f) = unat (63 :: byte))" by (rule word_unat_eq_iff)
    then show ?thesis by simp
  qed
  ultimately show ?thesis
    by (auto simp add: unpackCutoffByte_def Let_def push_bit_eq_mult header_code(2))
qed


lemma header_uint:
  "uint ((b1::byte) AND 0x1f) = int (unat (b1 AND 0x1f))"
  "uint (drop_bit 5 (b1::byte) + 1) = int (unat (drop_bit 5 b1) + 1)"
proof -
  show "uint (b1 AND 0x1f) = int (unat (b1 AND 0x1f))" by simp
  have "uint (drop_bit 5 b1 + 1) = int (unat (drop_bit 5 b1 + 1))" by simp
  then show "uint (drop_bit 5 b1 + 1) = int (unat (drop_bit 5 b1) + 1)"
    by (simp only: header_regwidth(1))
qed

lemma header_settings_log2m_small:
  fixes b1 :: byte
  assumes "unat (b1 AND 0x1f) < 4"
  shows "toInternal \<lparr> Log2m = uint (b1 AND 0x1f), Regwidth = uint (drop_bit 5 b1 + 1),
                     ExplicitThreshold = thr, SparseEnabled = sp \<rparr>
           = Inl (Log2mTooSmall (int (unat ((b1::byte) AND 0x1f))))"
proof -
  define l where "l = unat (b1 AND 0x1f)"
  show ?thesis
    using assms unfolding header_uint l_def[symmetric]
    by (simp add: toInternal_def validate_def param_defs)
qed

lemma header_settings_threshold_large:
  fixes b1 b2 :: byte
  assumes "4 \<le> unat (b1 AND 0x1f)" and "19 \<le> unat (b2 AND 0x3f)" and "unat (b2 AND 0x3f) \<le> 62"
  shows "toInternal \<lparr> Log2m = uint (b1 AND 0x1f), Regwidth = uint (drop_bit 5 b1 + 1),
                     ExplicitThreshold = snd (unpackCutoffByte b2),
                     SparseEnabled = sp \<rparr>
           = Inl (ExplicitThresholdTooLarge (2 ^ (unat ((b2::byte) AND 0x3f) - 1)))"
proof -
  define code where "code = unat (b2 AND 0x3f)"
  define l where "l = unat (b1 AND 0x1f)"
  define r where "r = unat (drop_bit 5 b1)"
  have thr: "snd (unpackCutoffByte b2) = 2 ^ (code - 1)"
    using assms(2,3) by (simp add: unpackCutoffByte_threshold Let_def code_def)
  have "(2::int) ^ 17 < 2 ^ (code - 1)"
    by (rule power_strict_increasing) (use assms(2) in \<open>simp_all add: code_def\<close>)
  then have big: "(131072::int) < 2 ^ (code - 1)" by simp
  have "(0::int) < 2 ^ (code - 1)" by simp
  then have nonneg: "\<not> (2::int) ^ (code - 1) < - 1" by linarith
  have lr: "4 \<le> l" "l \<le> 31" "r \<le> 7"
    using assms(1) header_log2m(2)[of b1] header_regwidth(2)[of b1] by (simp_all add: l_def r_def)
  show ?thesis
    unfolding header_uint thr code_def[symmetric] l_def[symmetric] r_def[symmetric]
    using lr big nonneg
    by (simp add: toInternal_def validate_def param_defs)
qed

lemma header_settings_valid:
  fixes b1 b2 :: byte
  assumes "4 \<le> unat (b1 AND 0x1f)"
    and "\<not> (19 \<le> unat (b2 AND 0x3f) \<and> unat (b2 AND 0x3f) \<le> 62)"
  shows "\<exists>st. toInternal \<lparr> Log2m = uint ((b1::byte) AND 0x1f), Regwidth = uint (drop_bit 5 b1 + 1),
                     ExplicitThreshold = snd (unpackCutoffByte (b2::byte)),
                     SparseEnabled = sp \<rparr> = Inr st
              \<and> log2m st = unat (b1 AND 0x1f)
              \<and> regwidth st = unat (drop_bit 5 b1) + 1"
proof -
  define code where "code = unat (b2 AND 0x3f)"
  define l where "l = unat (b1 AND 0x1f)"
  define r where "r = unat (drop_bit 5 b1)"
  define thr where "thr = snd (unpackCutoffByte b2)"
  have c: "code \<le> 63" "code < 19 \<or> code = 63"
    using header_code(1)[of b2] assms(2) by (auto simp: code_def)
  have thr: "- 1 \<le> thr" "thr \<le> 131072"
  proof -
    consider "code = 0" | "code = 63" | "0 < code" "code < 19" using c by linarith
    then show "- 1 \<le> thr"
    proof cases
      case 3
      have "(0::int) < 2 ^ (code - 1)" by simp
      then have "- 1 \<le> (2::int) ^ (code - 1)" by linarith
      then show ?thesis using 3
        by (simp add: thr_def unpackCutoffByte_threshold Let_def code_def[symmetric])
    qed (simp_all add: thr_def unpackCutoffByte_threshold Let_def code_def[symmetric])
    consider "code = 0" | "code = 63" | "0 < code" "code < 19" using c by linarith
    then show "thr \<le> 131072"
    proof cases
      case 3
      then have "(2::int) ^ (code - 1) \<le> 2 ^ 17" by (intro power_increasing) simp_all
      then show ?thesis using 3
        by (simp add: thr_def unpackCutoffByte_threshold Let_def code_def[symmetric])
    qed (simp_all add: thr_def unpackCutoffByte_threshold Let_def code_def[symmetric])
  qed
  have lr: "4 \<le> l" "l \<le> 31" "r \<le> 7"
    using assms(1) header_log2m(2)[of b1] header_regwidth(2)[of b1] by (simp_all add: l_def r_def)
  show ?thesis
    unfolding header_uint thr_def[symmetric] l_def[symmetric] r_def[symmetric]
    using lr thr
    by (simp add: toInternal_def validate_def param_defs Let_def nat_add_distrib)
qed


lemma FromBytes_header:
  assumes "\<not> length buf < 3" and "unat (drop_bit 4 (buf ! 0)) = 1"
    and "1 \<le> unat (buf ! 0 AND 0xf)" and "unat (buf ! 0 AND 0xf) \<le> 4"
  shows "FromBytes buf =
     (case toInternal \<lparr> Log2m = uint (buf ! 1 AND 0x1f), Regwidth = uint (drop_bit 5 (buf ! 1) + 1),
                         ExplicitThreshold = snd (unpackCutoffByte (buf ! 2)),
                         SparseEnabled = fst (unpackCutoffByte (buf ! 2)) \<rparr> of
        Inl err \<Rightarrow> Some (Inl err)
      | Inr st \<Rightarrow>
          (if unat (buf ! 0 AND 0xf) = 2 then
             (case explicit_fromBytes {||} st (drop 3 buf) of
                None \<Rightarrow> None
              | Some (Inl err) \<Rightarrow> Some (Inl err)
              | Some (Inr s') \<Rightarrow> Some (Inr \<lparr> settings = st, storage = ExplicitStorage s' \<rparr>))
           else if unat (buf ! 0 AND 0xf) = 3 then
             (case sparse_fromBytes fmempty st (drop 3 buf) of
                None \<Rightarrow> None
              | Some (Inl err) \<Rightarrow> Some (Inl err)
              | Some (Inr s') \<Rightarrow> Some (Inr \<lparr> settings = st, storage = SparseStorage s' \<rparr>))
           else if unat (buf ! 0 AND 0xf) = 4 then
             (case dense_fromBytes (newDenseStorage st) st (drop 3 buf) of
                None \<Rightarrow> None
              | Some (Inl err) \<Rightarrow> Some (Inl err)
              | Some (Inr s') \<Rightarrow> Some (Inr \<lparr> settings = st, storage = DenseStorage s' \<rparr>))
           else Some (Inr \<lparr> settings = st, storage = NilStorage \<rparr>)))"
  using assms
  by (simp add: FromBytes_def Let_def case_prod_beta storage_fromBytes_def
      split: sum.splits option.splits)

subsection \<open>The errors of FromBytes\<close>

text \<open>
  C8, as stated, fails: the buffer \<open>11 00 00\<close> has version 1, type 1 (empty) and
  three bytes, so none of the listed cases applies, and \<^verbatim>\<open>FromBytes\<close> returns the error
  of \<^verbatim>\<open>validate\<close> for \<open>Log2m = 0\<close>.
\<close>

theorem FromBytes_error_counterexample:
  "FromBytes [0x11, 0x00, 0x00] = Some (Inl (Log2mTooSmall 0))
   \<and> \<not> claimed_error_case [0x11, 0x00, 0x00]"
  by (simp add: FromBytes_def claimed_error_case_def unpackCutoffByte_def Let_def
      toInternal_def validate_def param_defs)

text \<open>
  C8, amended.  \<^verbatim>\<open>FromBytes\<close> never panics, and it returns an error exactly in the
  cases of \<open>FromBytes_error_table\<close>, with the error given there: the listed cases and,
  between the type check and the payload checks, the validation of the settings decoded
  from bytes 1 and 2.  In every other case it returns a counter; in particular a sparse
  payload of any length is accepted.
\<close>

theorem FromBytes_error_cases:
  "(FromBytes_error_table buf = None \<and> (\<exists>h. FromBytes buf = Some (Inr h)))
   \<or> (\<exists>e. FromBytes_error_table buf = Some e \<and> FromBytes buf = Some (Inl e))"
proof (cases "length buf < 3")
  case True
  then show ?thesis by (simp add: FromBytes_error_table_def FromBytes_def)
next
  case len: False
  define version where "version = unat (drop_bit 4 (buf ! 0))"
  define ty where "ty = unat (buf ! 0 AND 0xf)"
  define l where "l = unat (buf ! 1 AND 0x1f)"
  define r where "r = unat (drop_bit 5 (buf ! 1))"
  define code where "code = unat (buf ! 2 AND 0x3f)"
  define n where "n = length buf - 3"
  note defs = version_def ty_def l_def r_def code_def n_def
  have table: "FromBytes_error_table buf =
     (if version \<noteq> 1 then Some (UnsupportedVersion version)
      else if ty < 1 \<or> 4 < ty then Some (InvalidType ty)
      else if l < 4 then Some (Log2mTooSmall (int l))
      else if 19 \<le> code \<and> code \<le> 62 then Some (ExplicitThresholdTooLarge (2 ^ (code - 1)))
      else if ty = 2 \<and> n mod 8 \<noteq> 0 then Some ErrInsufficientBytes
      else if ty = 4 \<and> int n \<noteq> \<lceil>real (2 ^ l * (r + 1)) / 8\<rceil> then Some ErrInsufficientBytes
      else None)"
    using len unfolding FromBytes_error_table_def Let_def defs by simp
  show ?thesis
  proof (cases "version \<noteq> 1")
    case True
    then show ?thesis using len unfolding table
      by (simp add: FromBytes_def Let_def version_def)
  next
    case v: False
    show ?thesis
    proof (cases "ty < 1 \<or> 4 < ty")
      case True
      then show ?thesis using len v unfolding table
        by (auto simp add: FromBytes_def Let_def version_def ty_def)
    next
      case t: False
      have v1: "unat (drop_bit 4 (buf ! 0)) = 1" using v by (simp add: version_def)
      have t1: "1 \<le> unat (buf ! 0 AND 0xf)" "unat (buf ! 0 AND 0xf) \<le> 4"
        using t by (simp_all add: ty_def)
      note hdr = FromBytes_header[OF len v1 t1]
      show ?thesis
      proof (cases "l < 4")
        case True
        then show ?thesis using v t unfolding table hdr
          by (simp add: header_settings_log2m_small l_def)
      next
        case l4: False
        show ?thesis
        proof (cases "19 \<le> code \<and> code \<le> 62")
          case True
          then show ?thesis using v t l4 unfolding table hdr
            by (simp add: header_settings_threshold_large l_def code_def)
        next
          case c: False
          from header_settings_valid[of "buf ! 1" "buf ! 2" "fst (unpackCutoffByte (buf ! 2))"] l4 c
          obtain st where st: "toInternal \<lparr> Log2m = uint (buf ! 1 AND 0x1f),
                         Regwidth = uint (drop_bit 5 (buf ! 1) + 1),
                         ExplicitThreshold = snd (unpackCutoffByte (buf ! 2)),
                         SparseEnabled = fst (unpackCutoffByte (buf ! 2)) \<rparr> = Inr st"
            and lst: "log2m st = l" and rst: "regwidth st = r + 1"
            by (auto simp add: l_def r_def code_def)
          have nlen: "length (drop 3 buf) = n" by (simp add: n_def)
          have sz: "int (divideBy8RoundUp (push_bit (log2m st) (1::nat) * regwidth st))
                      = \<lceil>real (2 ^ l * (r + 1)) / 8\<rceil>"
            by (simp only: divideBy8RoundUp_ceiling push_bit_eq_mult lst rst mult_1)
          consider "ty = 1" | "ty = 2" | "ty = 3" | "ty = 4" using t by linarith
          then show ?thesis
          proof cases
            case 1
            then show ?thesis using v l4 c unfolding table hdr st
              by (simp add: ty_def[symmetric])
          next
            case 2
            then show ?thesis using v l4 c unfolding table hdr st
              by (simp add: ty_def[symmetric] explicit_fromBytes_result n_def)
          next
            case 3
            obtain s' where "sparse_fromBytes fmempty st (drop 3 buf) = Some (Inr s')"
              using sparse_fromBytes_Some by blast
            then show ?thesis using 3 v l4 c unfolding table hdr st
              by (simp add: ty_def[symmetric])
          next
            case 4
            have L: "length (newDenseStorage st)
                  = divideBy8RoundUp (divideBy8RoundUp (push_bit (log2m st) (1::nat) * regwidth st))"
              by (simp add: newDenseStorage_def Let_def)
            show ?thesis
            proof (cases "int n \<noteq> \<lceil>real (2 ^ l * (r + 1)) / 8\<rceil>")
              case True
              then have "length (drop 3 buf) \<noteq> divideBy8RoundUp (push_bit (log2m st) (1::nat) * regwidth st)"
                using sz nlen by auto
              with dense_fromBytes_result(1)[OF L, of "drop 3 buf"]
              have "dense_fromBytes (newDenseStorage st) st (drop 3 buf) = Some (Inl ErrInsufficientBytes)"
                by blast
              then show ?thesis using 4 True v l4 c unfolding table hdr st
                by (simp add: ty_def[symmetric])
            next
              case False
              then have "length (drop 3 buf) = divideBy8RoundUp (push_bit (log2m st) (1::nat) * regwidth st)"
                using sz nlen by (metis of_nat_eq_iff)
              with dense_fromBytes_result(2)[OF L, of "drop 3 buf"]
              obtain s' where "dense_fromBytes (newDenseStorage st) st (drop 3 buf) = Some (Inr s')"
                by blast
              then show ?thesis using 4 False v l4 c unfolding table hdr st
                by (simp add: ty_def[symmetric])
            qed
          qed
        qed
      qed
    qed
  qed
qed

theorem FromBytes_error_cases_witness:
  "FromBytes_error_table [0x13, 0x04, 0x40, 0x08] = None
   \<and> FromBytes [0x13, 0x04, 0x40, 0x08]
       = Some (Inr \<lparr> settings = settings_4_1, storage = SparseStorage (fmupd 0 1 fmempty) \<rparr>)"
proof -
  have f: "FromBytes [0x13, 0x04, 0x40, 0x08]
       = Some (Inr \<lparr> settings = settings_4_1, storage = SparseStorage (fmupd 0 1 fmempty) \<rparr>)"
    by code_simp
  from FromBytes_error_cases [of "[0x13, 0x04, 0x40, 0x08]"] f show ?thesis by auto
qed

end
